theory Spec2Isabelle
  imports Complex_Main "HOL-Library.Char_ord" "HOL-Library.List_Lexorder" "HOL-Library.AList"
begin

section \<open>Python values, failures and indexing\<close>

text \<open>
  The viewer is Python. Integers are unbounded (\<open>int\<close>), floats are idealised as
  \<open>real\<close>, and an exception raised by a statement is the \<open>Inl\<close> branch of a sum,
  so that every raise of the source is a value of the model.
\<close>

datatype py_error = IndexError | KeyError | ValueError | ZeroDivisionError | OSError

definition bind_res :: "py_error + 'a \<Rightarrow> ('a \<Rightarrow> py_error + 'b) \<Rightarrow> py_error + 'b" where
  "bind_res m f = (case m of Inl e \<Rightarrow> Inl e | Inr x \<Rightarrow> f x)"

text \<open>\<open>xs[i]\<close> on a Python list: a negative index counts from the end, anything
  outside \<open>-len(xs) .. len(xs)-1\<close> raises IndexError.\<close>

definition subscript :: "'a list \<Rightarrow> int \<Rightarrow> py_error + 'a" where
  "subscript xs i =
     (if 0 \<le> i \<and> i < int (length xs) then Inr (xs ! nat i)
      else if i < 0 \<and> - int (length xs) \<le> i then Inr (xs ! nat (int (length xs) + i))
      else Inl IndexError)"

text \<open>\<open>a / b\<close> on Python numbers: true division, ZeroDivisionError on a zero divisor.\<close>

definition true_div :: "real \<Rightarrow> real \<Rightarrow> py_error + real" where
  "true_div a b = (if b = 0 then Inl ZeroDivisionError else Inr (a / b))"

section \<open>Keyframe tracks\<close>

text \<open>
  Modelled from the spec: M2Track is declared in wow\_tools/m2\_format.py, which is not
  among the sources. The record follows the data model of the specification (a Track has
  an interpolation kind, an optional global-sequence reference, one range per animation,
  and the shared timestamp and value arrays) with the field names and widths of the
  viewer's module docstring: int16 interp\_type (0 = step, 1 = linear), int16 global\_seq,
  ranges as pairs of uint32 (start\_idx, end\_idx), timestamps as a flat uint32 array,
  values as a flat array of vec3 or quaternion tuples. A value is a tuple of floats; the
  evaluator only ever reads it through \<open>len\<close> and indexing, so it is a list of
  reals here. The field \<open>values\<close> is called \<open>track_values\<close>.
\<close>

record M2Track =
  interp_type :: int
  global_seq :: int
  ranges :: "(nat \<times> nat) list"
  timestamps :: "nat list"
  track_values :: "real list list"

text \<open>\<open>_lerp\<close>: \<open>tuple(a[i] + (b[i] - a[i]) * t for i in range(len(a)))\<close>;
  \<open>b[i]\<close> raises when \<open>b\<close> is shorter than \<open>a\<close>.\<close>

definition lerp :: "real list \<Rightarrow> real list \<Rightarrow> real \<Rightarrow> py_error + real list" where
  "lerp a b t =
     (if length b < length a then Inl IndexError
      else Inr (map (\<lambda>i. a ! i + (b ! i - a ! i) * t) [0..<length a]))"

text \<open>\<open>_quat_dot\<close>: \<open>sum(a[i] * b[i] for i in range(4))\<close>.\<close>

definition quat_dot :: "real list \<Rightarrow> real list \<Rightarrow> py_error + real" where
  "quat_dot a b =
     (if length a < 4 \<or> length b < 4 then Inl IndexError
      else Inr (\<Sum>i\<leftarrow>[0..<4]. a ! i * b ! i))"

text \<open>\<open>_nlerp\<close>: shortest-path normalised linear interpolation of quaternions.
  The final division is by a length that the test before it keeps at \<open>1e-10\<close> or more.\<close>

definition nlerp :: "real list \<Rightarrow> real list \<Rightarrow> real \<Rightarrow> py_error + real list" where
  "nlerp a b t =
     bind_res (quat_dot a b) (\<lambda>d.
       let b' = (if d < 0 then map (\<lambda>i. - (b ! i)) [0..<4] else b) in
       bind_res (lerp a b' t) (\<lambda>q.
         let len = sqrt (\<Sum>c\<leftarrow>q. c * c) in
         if len < 1 / 10 ^ 10 then Inr [0, 0, 0, 1]
         else Inr (map (\<lambda>c. c / len) q)))"

text \<open>The \<open>while lo < hi - 1\<close> loop of \<open>evaluate_track\<close>: midpoint search for the
  bracketing pair. \<open>//\<close> is floor division, which is \<open>div\<close> on \<open>int\<close>.\<close>

function search_loop :: "nat list \<Rightarrow> int \<Rightarrow> int \<Rightarrow> int \<Rightarrow> py_error + (int \<times> int)" where
  "search_loop ts global_time lo hi =
     (if lo < hi - 1 then
        (case subscript ts ((lo + hi) div 2) of
           Inl e \<Rightarrow> Inl e
         | Inr ts_mid \<Rightarrow>
             if int ts_mid \<le> global_time
             then search_loop ts global_time ((lo + hi) div 2) hi
             else search_loop ts global_time lo ((lo + hi) div 2))
      else Inr (lo, hi))"
  by pat_completeness auto
termination
  by (relation "measure (\<lambda>(ts, g, lo, hi). nat (hi - lo))") auto

declare search_loop.simps [simp del]

text \<open>The statements of \<open>evaluate_track\<close> after the loop: step tracks and duplicate
  timestamps return the earlier sample, anything else is blended.\<close>

definition interpolate ::
  "M2Track \<Rightarrow> int \<Rightarrow> bool \<Rightarrow> int \<Rightarrow> int \<Rightarrow> py_error + real list option" where
  "interpolate track global_time is_quat lo hi =
     (let ts = timestamps track; vals = track_values track in
      bind_res (if interp_type track = 0 then Inr True
                else bind_res (subscript ts hi) (\<lambda>ts_hi.
                     bind_res (subscript ts lo) (\<lambda>ts_lo. Inr (ts_hi = ts_lo)))) (\<lambda>verbatim.
      if verbatim then map_sum id Some (subscript vals lo)
      else
        bind_res (subscript ts lo) (\<lambda>ts_lo.
        bind_res (subscript ts hi) (\<lambda>ts_hi.
        bind_res (subscript ts lo) (\<lambda>ts_lo'.
        bind_res (true_div (real_of_int (global_time - int ts_lo))
                           (real_of_int (int ts_hi - int ts_lo'))) (\<lambda>t.
        bind_res (subscript vals lo) (\<lambda>v_lo.
        bind_res (subscript vals hi) (\<lambda>v_hi.
        map_sum id Some (if is_quat then nlerp v_lo v_hi t else lerp v_lo v_hi t)))))))))"

text \<open>\<open>evaluate_track(track, anim_index, time_ms, anim_duration=0, is_quat=False)\<close>.
  \<open>Inr None\<close> is Python's \<open>return None\<close>.\<close>

definition evaluate_track ::
  "M2Track \<Rightarrow> int \<Rightarrow> int \<Rightarrow> int \<Rightarrow> bool \<Rightarrow> py_error + real list option" where
  "evaluate_track track anim_index time_ms anim_duration is_quat =
     (if track_values track = [] then Inr None
      else if \<not> anim_index < int (length (ranges track)) then Inr None
      else
        bind_res (subscript (ranges track) anim_index) (\<lambda>(s, e).
        let start_idx = int s; end_idx = int e in
        if start_idx \<ge> end_idx \<or> start_idx \<ge> int (length (timestamps track)) then Inr None
        else
          let end_idx = min end_idx (int (length (timestamps track)));
              ts = timestamps track;
              vals = track_values track in
          bind_res (subscript ts start_idx) (\<lambda>base_time.
          let global_time = int base_time + time_ms in
          bind_res (subscript ts start_idx) (\<lambda>ts_first.
          if global_time \<le> int ts_first then map_sum id Some (subscript vals start_idx)
          else
            bind_res (subscript ts (end_idx - 1)) (\<lambda>ts_last.
            if global_time \<ge> int ts_last then map_sum id Some (subscript vals (end_idx - 1))
            else
              bind_res (search_loop ts global_time start_idx (end_idx - 1)) (\<lambda>(lo, hi).
              interpolate track global_time is_quat lo hi))))))"

text \<open>Well-formedness of a track and the conditions under which the evaluator has no value.\<close>

definition track_ok :: "bool \<Rightarrow> M2Track \<Rightarrow> bool" where
  "track_ok is_quat track \<longleftrightarrow>
     length (track_values track) = length (timestamps track) \<and>
     list_all (\<lambda>v. length v = (if is_quat then 4 else 3)) (track_values track)"

definition no_value :: "M2Track \<Rightarrow> int \<Rightarrow> bool" where
  "no_value track anim_index \<longleftrightarrow>
     track_values track = [] \<or>
     int (length (ranges track)) \<le> anim_index \<or>
     (case ranges track ! nat anim_index of
        (start_idx, end_idx) \<Rightarrow> end_idx \<le> start_idx \<or> length (timestamps track) \<le> start_idx)"

definition demo_track :: M2Track where
  "demo_track = \<lparr>interp_type = 1, global_seq = - 1, ranges = [(0, 2), (2, 2)],
     timestamps = [0, 10], track_values = [[0, 0, 0], [2, 4, 6]]\<rparr>"


definition earlier_sample :: "M2Track \<Rightarrow> nat \<Rightarrow> nat \<Rightarrow> int \<Rightarrow> nat \<Rightarrow> bool" where
  "earlier_sample track s e' g i \<longleftrightarrow>
     (g \<le> int (timestamps track ! s) \<and> i = s) \<or>
     (int (timestamps track ! (e' - 1)) \<le> g \<and> i = e' - 1) \<or>
     (i + 1 < e' \<and> int (timestamps track ! i) \<le> g \<and> g < int (timestamps track ! (i + 1)))"

definition step_track :: M2Track where
  "step_track = \<lparr>interp_type = 0, global_seq = - 1, ranges = [(0, 3)],
     timestamps = [0, 10, 20], track_values = [[1, 1, 1], [2, 2, 2], [3, 3, 3]]\<rparr>"

section \<open>Matrices\<close>

text \<open>
  The numpy arrays of the viewer are 4x4 matrices and vectors of 3 or 4 floats; they are
  lists (of rows) here, and every operation below ranges over the indices 0..3 as the
  4x4 operations of the source do.
\<close>

type_synonym vec = "real list"
type_synonym mat = "real list list"

definition mat4 :: "(nat \<Rightarrow> nat \<Rightarrow> real) \<Rightarrow> mat" where
  "mat4 f = map (\<lambda>i. map (\<lambda>j. f i j) [0..<4]) [0..<4]"

text \<open>\<open>np.eye(4)\<close>.\<close>

definition eye4 :: mat where
  "eye4 = mat4 (\<lambda>i j. if i = j then 1 else 0)"

text \<open>\<open>m[i, j] = x\<close> on a 4x4 array.\<close>

definition mat_set :: "mat \<Rightarrow> nat \<Rightarrow> nat \<Rightarrow> real \<Rightarrow> mat" where
  "mat_set m i j x = mat4 (\<lambda>r c. if r = i \<and> c = j then x else m ! r ! c)"

text \<open>\<open>m[:3, 3] = v\<close>: numpy takes a sequence of three entries, broadcasts a sequence of
  one entry, and raises ValueError for any other length.\<close>

definition assign_col3 :: "mat \<Rightarrow> vec \<Rightarrow> py_error + mat" where
  "assign_col3 m v =
     (if length v = 3 then Inr (mat_set (mat_set (mat_set m 0 3 (v ! 0)) 1 3 (v ! 1)) 2 3 (v ! 2))
      else if length v = 1 then Inr (mat_set (mat_set (mat_set m 0 3 (v ! 0)) 1 3 (v ! 0)) 2 3 (v ! 0))
      else Inl ValueError)"

text \<open>\<open>m[:3, :3] = r\<close> for a 3x3 array \<open>r\<close>.\<close>

definition assign_block3 :: "mat \<Rightarrow> mat \<Rightarrow> mat" where
  "assign_block3 m r = mat4 (\<lambda>i j. if i < 3 \<and> j < 3 then r ! i ! j else m ! i ! j)"

text \<open>\<open>a @ b\<close> on 4x4 arrays, and \<open>a @ v\<close> on a 4x4 array and a vector of 4.\<close>

definition matmul :: "mat \<Rightarrow> mat \<Rightarrow> mat" where
  "matmul a b = mat4 (\<lambda>i j. \<Sum>k\<leftarrow>[0..<4]. a ! i ! k * b ! k ! j)"

definition matvec :: "mat \<Rightarrow> vec \<Rightarrow> vec" where
  "matvec a v = map (\<lambda>i. \<Sum>k\<leftarrow>[0..<4]. a ! i ! k * v ! k) [0..<4]"

text \<open>\<open>_quat_to_matrix\<close>: the 3x3 rotation matrix of a quaternion \<open>(x, y, z, w)\<close>;
  the unpacking \<open>x, y, z, w = q\<close> raises ValueError unless \<open>q\<close> has four entries.\<close>

definition quat_to_matrix :: "vec \<Rightarrow> py_error + mat" where
  "quat_to_matrix q =
     (if length q \<noteq> 4 then Inl ValueError
      else
        let x = q ! 0; y = q ! 1; z = q ! 2; w = q ! 3;
            xx = x * x; yy = y * y; zz = z * z;
            xy = x * y; xz = x * z; yz = y * z;
            wx = w * x; wy = w * y; wz = w * z
        in Inr [[1 - 2 * (yy + zz), 2 * (xy - wz), 2 * (xz + wy)],
                [2 * (xy + wz), 1 - 2 * (xx + zz), 2 * (yz - wx)],
                [2 * (xz - wy), 2 * (yz + wx), 1 - 2 * (xx + yy)]])"

section \<open>Bones\<close>

text \<open>
  Modelled from the spec: the bone class (M2CompBone) is declared in
  wow\_tools/m2\_format.py, which is not among the sources. The record follows the data
  model of the specification (parent index or root sentinel, pivot, three tracks, optional
  key-bone id) with the fields of the module docstring: int32 key\_bone\_id, uint32 flags,
  int16 parent (-1 for a root bone), uint16 submesh\_id, the three tracks, and the pivot
  as 3 floats.
\<close>

type_synonym vec3 = "real \<times> real \<times> real"

record M2Bone =
  key_bone_id :: int
  flags :: nat
  parent :: int
  submesh_id :: nat
  translation :: M2Track
  rotation :: M2Track
  scale :: M2Track
  pivot :: vec3

text \<open>\<open>np.array(bone.pivot, dtype=np.float64)\<close>.\<close>

fun np_array3 :: "vec3 \<Rightarrow> vec" where
  "np_array3 (x, y, z) = [x, y, z]"

text \<open>The statements of \<open>evaluate_bone_transform\<close> from \<open>pivot = ...\<close> to
  \<open>local = t_pivot @ t_trans @ r_mat @ s_mat @ t_neg_pivot\<close> (the product associates to
  the left).\<close>

definition local_transform :: "M2Bone \<Rightarrow> int \<Rightarrow> int \<Rightarrow> int \<Rightarrow> py_error + mat" where
  "local_transform bone anim_index time_ms anim_duration =
     (let pivot_v = np_array3 (pivot bone) in
      bind_res (evaluate_track (translation bone) anim_index time_ms anim_duration False) (\<lambda>trans.
      bind_res (evaluate_track (rotation bone) anim_index time_ms anim_duration True) (\<lambda>rot.
      bind_res (evaluate_track (scale bone) anim_index time_ms anim_duration False) (\<lambda>scl.
      bind_res (assign_col3 eye4 (map uminus pivot_v)) (\<lambda>t_neg_pivot.
      bind_res (case scl of
                  None \<Rightarrow> Inr eye4
                | Some s \<Rightarrow>
                    bind_res (subscript s 0) (\<lambda>s0.
                    bind_res (subscript s 1) (\<lambda>s1.
                    bind_res (subscript s 2) (\<lambda>s2.
                    Inr (mat_set (mat_set (mat_set eye4 0 0 s0) 1 1 s1) 2 2 s2))))) (\<lambda>s_mat.
      bind_res (case rot of
                  None \<Rightarrow> Inr eye4
                | Some q \<Rightarrow> bind_res (quat_to_matrix q) (\<lambda>r. Inr (assign_block3 eye4 r))) (\<lambda>r_mat.
      bind_res (case trans of
                  None \<Rightarrow> Inr eye4
                | Some v \<Rightarrow> assign_col3 eye4 v) (\<lambda>t_trans.
      bind_res (assign_col3 eye4 pivot_v) (\<lambda>t_pivot.
      Inr (matmul (matmul (matmul (matmul t_pivot t_trans) r_mat) s_mat) t_neg_pivot))))))))))"

text \<open>The memoisation cache: \<open>None\<close> is the default argument \<open>cache=None\<close>, otherwise a
  dict from bone index to matrix, which the function updates in place; the model returns
  the updated cache next to the matrix.\<close>

type_synonym cache = "(int \<rightharpoonup> mat) option"

definition cache_lookup :: "cache \<Rightarrow> int \<Rightarrow> mat option" where
  "cache_lookup cache k = (case cache of None \<Rightarrow> None | Some c \<Rightarrow> c k)"

definition cache_store :: "cache \<Rightarrow> int \<Rightarrow> mat \<Rightarrow> cache" where
  "cache_store cache k m = (case cache of None \<Rightarrow> None | Some c \<Rightarrow> Some (c(k \<mapsto> m)))"

text \<open>
  \<open>evaluate_bone_transform\<close> recurses along the parent indices with no bound, so it is a
  partial function: the outer \<open>None\<close> stands for a call that never returns, \<open>Some (Inl e)\<close>
  for a raised exception, \<open>Some (Inr (world, cache'))\<close> for a returned matrix.
\<close>

partial_function (option) evaluate_bone_transform ::
  "M2Bone list \<Rightarrow> int \<Rightarrow> int \<Rightarrow> int \<Rightarrow> int \<Rightarrow> cache \<Rightarrow> (py_error + mat \<times> cache) option" where
  "evaluate_bone_transform bones bone_index anim_index time_ms anim_duration cache =
     (case cache_lookup cache bone_index of
        Some m \<Rightarrow> Some (Inr (m, cache))
      | None \<Rightarrow>
          (case subscript bones bone_index of
             Inl e \<Rightarrow> Some (Inl e)
           | Inr bone \<Rightarrow>
               (case local_transform bone anim_index time_ms anim_duration of
                  Inl e \<Rightarrow> Some (Inl e)
                | Inr local \<Rightarrow>
                    if parent bone \<ge> 0 then
                      Option.bind
                        (evaluate_bone_transform bones (parent bone) anim_index time_ms
                           anim_duration cache)
                        (\<lambda>r. case r of
                           Inl e \<Rightarrow> Some (Inl e)
                         | Inr (parent_mat, cache1) \<Rightarrow>
                             Some (Inr (matmul parent_mat local,
                                        cache_store cache1 bone_index (matmul parent_mat local))))
                    else Some (Inr (local, cache_store cache bone_index local)))))"

section \<open>Skinning\<close>

text \<open>
  Modelled from the spec: M2Vertex, M2File and the entries of its tables are declared in
  wow\_tools/m2\_format.py, which is not among the sources. Per the data model of the
  specification and the module docstring, a vertex is unpacked with the format
  \<open><3f4B4B3f2f2f\<close>: 3 floats position, 4 uint8 bone weights, 4 uint8 bone indices,
  3 floats normal and two uv pairs; a texture definition has a type tag and an embedded
  file name, which is empty for a replaceable texture. Of the model file the name and the
  vertex, bone, animation and texture tables are read here.
\<close>

type_synonym 'a slots = "'a \<times> 'a \<times> 'a \<times> 'a"

fun slot :: "'a slots \<Rightarrow> nat \<Rightarrow> 'a" where
  "slot (a, b, c, d) j = (if j = 0 then a else if j = 1 then b else if j = 2 then c else d)"

record M2Vertex =
  pos :: vec3
  bone_weights :: "nat slots"
  bone_indices :: "nat slots"
  normal :: vec3
  uv1 :: "real \<times> real"
  uv2 :: "real \<times> real"

record M2Animation =
  anim_id :: nat
  sub_id :: nat
  duration :: int

record M2Texture =
  tex_type :: int
  filename :: string

record M2File =
  name :: string
  vertices :: "M2Vertex list"
  bones :: "M2Bone list"
  animations :: "M2Animation list"
  textures :: "M2Texture list"

text \<open>The loop \<open>for j in range(4)\<close> over the weight slots of one vertex; \<open>deformed\<close> is
  the accumulator, \<open>continue\<close> skips a zero weight before its bone index is read.\<close>

fun slot_loop :: "mat list \<Rightarrow> M2Vertex \<Rightarrow> vec \<Rightarrow> nat list \<Rightarrow> vec \<Rightarrow> vec" where
  "slot_loop bone_matrices v p [] deformed = deformed"
| "slot_loop bone_matrices v p (j # js) deformed =
     (let w = slot (bone_weights v) j in
      if w = 0 then slot_loop bone_matrices v p js deformed
      else
        let bi = slot (bone_indices v) j in
        if bi < length bone_matrices then
          let transformed = matvec (bone_matrices ! bi) p in
          slot_loop bone_matrices v p js
            (map2 (+) deformed (map (\<lambda>c. (real w / 255) * c) (take 3 transformed)))
        else slot_loop bone_matrices v p js deformed)"

text \<open>The body of the loop \<open>for vi in range(n_verts)\<close>: the row written to \<open>result[vi]\<close>.\<close>

definition deform_vertex :: "mat list \<Rightarrow> M2Vertex \<Rightarrow> vec" where
  "deform_vertex bone_matrices v =
     (case pos v of (x, y, z) \<Rightarrow> slot_loop bone_matrices v [x, y, z, 1] [0..<4] [0, 0, 0])"

text \<open>The loop \<open>for vi in range(n_verts)\<close> on its own: the deformer applied to a vertex
  table and an array of bone matrices.\<close>

definition vertex_loop :: "mat list \<Rightarrow> M2Vertex list \<Rightarrow> vec list" where
  "vertex_loop bone_matrices vs = map (deform_vertex bone_matrices) vs"

text \<open>The loop \<open>for bi in range(len(m2.bones))\<close> that fills \<open>bone_matrices\<close>, sharing one
  cache between the calls.\<close>

fun bone_matrices_loop ::
  "M2Bone list \<Rightarrow> int \<Rightarrow> int \<Rightarrow> int \<Rightarrow> nat list \<Rightarrow> cache \<Rightarrow> mat list \<Rightarrow> (py_error + mat list) option" where
  "bone_matrices_loop bs anim_index time_ms anim_duration [] cache bone_matrices =
     Some (Inr bone_matrices)"
| "bone_matrices_loop bs anim_index time_ms anim_duration (bi # bis) cache bone_matrices =
     Option.bind (evaluate_bone_transform bs (int bi) anim_index time_ms anim_duration cache)
       (\<lambda>r. case r of
          Inl e \<Rightarrow> Some (Inl e)
        | Inr (m, cache') \<Rightarrow>
            bone_matrices_loop bs anim_index time_ms anim_duration bis cache' (bone_matrices @ [m]))"

text \<open>\<open>compute_deformed_positions(m2, anim_index, time_ms)\<close>.\<close>

definition compute_deformed_positions :: "M2File \<Rightarrow> int \<Rightarrow> int \<Rightarrow> (py_error + vec list) option" where
  "compute_deformed_positions m2 anim_index time_ms =
     (case (if anim_index < int (length (animations m2))
            then map_sum id duration (subscript (animations m2) anim_index)
            else Inr 0) of
        Inl e \<Rightarrow> Some (Inl e)
      | Inr anim_duration \<Rightarrow>
          Option.bind
            (bone_matrices_loop (bones m2) anim_index time_ms anim_duration
               [0..<length (bones m2)] (Some Map.empty) [])
            (\<lambda>r. case r of
               Inl e \<Rightarrow> Some (Inl e)
             | Inr bone_matrices \<Rightarrow> Some (Inr (vertex_loop bone_matrices (vertices m2)))))"

text \<open>The skinning rule in the words of the specification: a slot takes part when its
  weight is not zero and its bone index is within the matrix array; the output is the sum
  over these slots of weight/255 times the bone matrix applied to the homogeneous
  rest-pose position.\<close>

definition slot_active :: "mat list \<Rightarrow> M2Vertex \<Rightarrow> nat \<Rightarrow> bool" where
  "slot_active bone_matrices v j \<longleftrightarrow>
     slot (bone_weights v) j \<noteq> 0 \<and> slot (bone_indices v) j < length bone_matrices"

fun homogeneous :: "vec3 \<Rightarrow> vec" where
  "homogeneous (x, y, z) = [x, y, z, 1]"

definition weighted_sum :: "mat list \<Rightarrow> M2Vertex \<Rightarrow> vec" where
  "weighted_sum bone_matrices v =
     map (\<lambda>c. \<Sum>j\<leftarrow>filter (slot_active bone_matrices v) [0..<4].
                 (real (slot (bone_weights v) j) / 255) *
                 (matvec (bone_matrices ! slot (bone_indices v) j) (homogeneous (pos v)) ! c))
       [0..<3]"

text \<open>A vertex at rest position (1, 2, 3) with given weights and bone indices, for the examples.\<close>

definition rest_vertex :: "nat slots \<Rightarrow> nat slots \<Rightarrow> M2Vertex" where
  "rest_vertex ws bis = \<lparr>pos = (1, 2, 3), bone_weights = ws, bone_indices = bis,
     normal = (0, 0, 1), uv1 = (0, 0), uv2 = (0, 0)\<rparr>"

section \<open>The bone transform in the words of the specification\<close>

text \<open>Translation, scaling and quaternion rotation as homogeneous 4x4 matrices.\<close>

type_synonym quat = "real \<times> real \<times> real \<times> real"

fun Translate :: "vec3 \<Rightarrow> mat" where
  "Translate (x, y, z) = [[1, 0, 0, x], [0, 1, 0, y], [0, 0, 1, z], [0, 0, 0, 1]]"

fun Scale :: "vec3 \<Rightarrow> mat" where
  "Scale (x, y, z) = [[x, 0, 0, 0], [0, y, 0, 0], [0, 0, z, 0], [0, 0, 0, 1]]"

fun Rotate :: "quat \<Rightarrow> mat" where
  "Rotate (x, y, z, w) =
     [[1 - 2 * (y * y + z * z), 2 * (x * y - w * z), 2 * (x * z + w * y), 0],
      [2 * (x * y + w * z), 1 - 2 * (x * x + z * z), 2 * (y * z - w * x), 0],
      [2 * (x * z - w * y), 2 * (y * z + w * x), 1 - 2 * (x * x + y * y), 0],
      [0, 0, 0, 1]]"

text \<open>What a track contributes: its value, or the identity of its kind when the evaluator
  returned no value (zero translation, identity rotation, unit scale).\<close>

definition track_translation :: "vec option \<Rightarrow> vec3" where
  "track_translation r = (case r of None \<Rightarrow> (0, 0, 0) | Some v \<Rightarrow> (v ! 0, v ! 1, v ! 2))"

definition track_rotation :: "vec option \<Rightarrow> quat" where
  "track_rotation r = (case r of None \<Rightarrow> (0, 0, 0, 1) | Some v \<Rightarrow> (v ! 0, v ! 1, v ! 2, v ! 3))"

definition track_scale :: "vec option \<Rightarrow> vec3" where
  "track_scale r = (case r of None \<Rightarrow> (1, 1, 1) | Some v \<Rightarrow> (v ! 0, v ! 1, v ! 2))"

fun negate3 :: "vec3 \<Rightarrow> vec3" where
  "negate3 (x, y, z) = (- x, - y, - z)"

text \<open>Translate(pivot) . Translate(t) . Rotate(r) . Scale(s) . Translate(-pivot).\<close>

definition local_product :: "vec3 \<Rightarrow> vec3 \<Rightarrow> quat \<Rightarrow> vec3 \<Rightarrow> mat" where
  "local_product pv t r s =
     matmul (matmul (matmul (matmul (Translate pv) (Translate t)) (Rotate r)) (Scale s))
       (Translate (negate3 pv))"

text \<open>The world transform of a bone: its local product when it has no parent, else the
  parent's world transform times its local product.\<close>

inductive world_transform :: "M2Bone list \<Rightarrow> int \<Rightarrow> int \<Rightarrow> int \<Rightarrow> int \<Rightarrow> mat \<Rightarrow> bool"
  for bs :: "M2Bone list" and anim_index time_ms anim_duration :: int where
  root:
    "subscript bs bone_index = Inr bone \<Longrightarrow> parent bone < 0 \<Longrightarrow>
     evaluate_track (translation bone) anim_index time_ms anim_duration False = Inr tr \<Longrightarrow>
     evaluate_track (rotation bone) anim_index time_ms anim_duration True = Inr rot \<Longrightarrow>
     evaluate_track (scale bone) anim_index time_ms anim_duration False = Inr sc \<Longrightarrow>
     world_transform bs anim_index time_ms anim_duration bone_index
       (local_product (pivot bone) (track_translation tr) (track_rotation rot) (track_scale sc))"
| child:
    "subscript bs bone_index = Inr bone \<Longrightarrow> 0 \<le> parent bone \<Longrightarrow>
     evaluate_track (translation bone) anim_index time_ms anim_duration False = Inr tr \<Longrightarrow>
     evaluate_track (rotation bone) anim_index time_ms anim_duration True = Inr rot \<Longrightarrow>
     evaluate_track (scale bone) anim_index time_ms anim_duration False = Inr sc \<Longrightarrow>
     world_transform bs anim_index time_ms anim_duration (parent bone) parent_world \<Longrightarrow>
     world_transform bs anim_index time_ms anim_duration bone_index
       (matmul parent_world
          (local_product (pivot bone) (track_translation tr) (track_rotation rot) (track_scale sc)))"

text \<open>A cache is consistent when every matrix it holds is the world transform of its key,
  as it is for the empty cache and for no cache.\<close>

definition cache_consistent :: "M2Bone list \<Rightarrow> int \<Rightarrow> int \<Rightarrow> int \<Rightarrow> cache \<Rightarrow> bool" where
  "cache_consistent bs anim_index time_ms anim_duration cache \<longleftrightarrow>
     (\<forall>k m. cache_lookup cache k = Some m \<longrightarrow>
        world_transform bs anim_index time_ms anim_duration k m)"

text \<open>The data model's typing of a bone's tracks: translation and scale keyframes are
  vec3, rotation keyframes are quaternions; and, with it, as many values as timestamps.\<close>

definition bone_shaped :: "M2Bone \<Rightarrow> bool" where
  "bone_shaped bone \<longleftrightarrow>
     list_all (\<lambda>v. length v = 3) (track_values (translation bone)) \<and>
     list_all (\<lambda>v. length v = 4) (track_values (rotation bone)) \<and>
     list_all (\<lambda>v. length v = 3) (track_values (scale bone))"




text \<open>Example bones: tracks without keyframes, a root, a child of bone 0, and a bone that
  is its own parent.\<close>

definition empty_track :: M2Track where
  "empty_track = \<lparr>interp_type = 0, global_seq = - 1, ranges = [], timestamps = [],
     track_values = []\<rparr>"

definition still_bone :: "int \<Rightarrow> vec3 \<Rightarrow> M2Bone" where
  "still_bone p pv = \<lparr>key_bone_id = - 1, flags = 0, parent = p, submesh_id = 0,
     translation = empty_track, rotation = empty_track, scale = empty_track, pivot = pv\<rparr>"

definition two_bones :: "M2Bone list" where
  "two_bones = [still_bone (- 1) (1, 2, 3), still_bone 0 (4, 5, 6)]"


section \<open>Texture resolution\<close>

subsection \<open>Strings and paths\<close>

text \<open>
  Strings are lists of 8-bit characters, so the model covers ASCII file names;
  \<open>str.lower\<close> maps A..Z to a..z and leaves every other character alone.
\<close>

definition lower_char :: "char \<Rightarrow> char" where
  "lower_char c =
     (case map_of (zip ''ABCDEFGHIJKLMNOPQRSTUVWXYZ'' ''abcdefghijklmnopqrstuvwxyz'') c of
        None \<Rightarrow> c | Some l \<Rightarrow> l)"

definition lower :: "string \<Rightarrow> string" where
  "lower s = map lower_char s"

definition startswith :: "string \<Rightarrow> string \<Rightarrow> bool" where
  "startswith s p \<longleftrightarrow> take (length p) s = p"

definition endswith :: "string \<Rightarrow> string \<Rightarrow> bool" where
  "endswith s p \<longleftrightarrow> length p \<le> length s \<and> drop (length s - length p) s = p"

text \<open>\<open>Path.suffix\<close> and \<open>Path.stem\<close> of a file name: the name is cut at its last
  dot, unless that dot is the first or the last character (or there is none).\<close>

definition after_last_dot :: "string \<Rightarrow> string" where
  "after_last_dot n = rev (takeWhile (\<lambda>c. c \<noteq> CHR ''.'') (rev n))"

definition has_suffix :: "string \<Rightarrow> bool" where
  "has_suffix n \<longleftrightarrow>
     CHR ''.'' \<in> set n \<and> after_last_dot n \<noteq> [] \<and> length (after_last_dot n) + 1 < length n"

definition suffix_of :: "string \<Rightarrow> string" where
  "suffix_of n = (if has_suffix n then CHR ''.'' # after_last_dot n else [])"

definition stem_of :: "string \<Rightarrow> string" where
  "stem_of n = (if has_suffix n then take (length n - length (after_last_dot n) - 1) n else n)"

text \<open>A path is the list of its parts, as \<open>Path.parts\<close> gives them; an absolute path
  starts with the part \<open>/\<close>, and the empty list is the path \<open>.\<close>.\<close>

type_synonym path = "string list"



definition is_anchor :: "path \<Rightarrow> bool" where
  "is_anchor p \<longleftrightarrow> p = [] \<or> p = [''/'']"

text \<open>\<open>Path.name\<close>, \<open>Path.parent\<close>, \<open>Path.parents\<close> and the \<open>/\<close> operator.\<close>

definition path_name :: "path \<Rightarrow> string" where
  "path_name p = (if is_anchor p then [] else last p)"





text \<open>
  The file system is the environment of the resolver. What the resolver asks of it:
  \<open>Path.is_dir()\<close>, \<open>Path.iterdir()\<close> (the names of the entries, or the OSError that
  listing raises: FileNotFoundError, NotADirectoryError, PermissionError) and
  \<open>Path.exists()\<close>.
\<close>

record filesystem =
  is_dir :: "path \<Rightarrow> bool"
  iterdir :: "path \<Rightarrow> py_error + string list"
  path_exists :: "path \<Rightarrow> bool"

subsection \<open>Strategy 1: naming convention\<close>

text \<open>A Python dict with string keys, in insertion order; \<open>d[k] = v\<close> is
  \<open>AList.update\<close>, \<open>d[k]\<close> raises KeyError for a missing key.\<close>

type_synonym 'v dict = "(string \<times> 'v) list"

definition dict_get :: "('k \<times> 'v) list \<Rightarrow> 'k \<Rightarrow> py_error + 'v" where
  "dict_get d k = (case map_of d k of None \<Rightarrow> Inl KeyError | Some v \<Rightarrow> Inr v)"

text \<open>The loop \<open>for blp in all_blps\<close> of \<open>_find_texture_files\<close>; the state is
  \<open>(base_skins, extra_skins, plain_texture)\<close>.\<close>

type_synonym skins = "path dict \<times> path dict \<times> path option"

definition classify :: "string \<Rightarrow> string \<Rightarrow> path \<Rightarrow> skins \<Rightarrow> skins" where
  "classify model_base_lower skin_prefix_lower blp st =
     (case st of (base_skins, extra_skins, plain_texture) \<Rightarrow>
        let stem_lower = lower (stem_of (path_name blp)) in
        if stem_lower = model_base_lower then (base_skins, extra_skins, Some blp)
        else if \<not> startswith stem_lower skin_prefix_lower then
          (base_skins, extra_skins, if plain_texture = None then Some blp else plain_texture)
        else
          let suffix = drop (length skin_prefix_lower) stem_lower in
          if endswith suffix ''_extra''
          then (base_skins, AList.update (take (length suffix - 6) suffix) blp extra_skins,
                plain_texture)
          else (AList.update suffix blp base_skins, extra_skins, plain_texture))"

definition classify_loop :: "string \<Rightarrow> string \<Rightarrow> path list \<Rightarrow> skins" where
  "classify_loop model_base_lower skin_prefix_lower all_blps =
     fold (classify model_base_lower skin_prefix_lower) all_blps ([], [], None)"

text \<open>\<open>sorted(keys, reverse=True)\<close> on strings.\<close>

definition sorted_reverse :: "string list \<Rightarrow> string list" where
  "sorted_reverse ks = rev (sort ks)"

text \<open>The statements of \<open>_find_texture_files\<close> after the loop: the choice of the
  files for the texture types 1 (body), 8 (fur) and 11 (fallback).\<close>

definition choose_textures :: "skins \<Rightarrow> path list \<Rightarrow> py_error + (int \<times> path) list" where
  "choose_textures st all_blps =
     (case st of (base_skins, extra_skins, plain_texture) \<Rightarrow>
        let paired = sorted_reverse
              (filter (\<lambda>k. k \<in> set (map fst extra_skins)) (remdups (map fst base_skins)))
        in
        bind_res
          (if paired \<noteq> [] then
             bind_res (dict_get base_skins (hd paired)) (\<lambda>b.
             bind_res (dict_get extra_skins (hd paired)) (\<lambda>e.
             Inr [(1, b), (8, e)]))
           else
             bind_res
               (if base_skins \<noteq> [] then
                  bind_res (dict_get base_skins (hd (sorted_reverse (map fst base_skins))))
                    (\<lambda>b. Inr [(1, b)])
                else Inr []) (\<lambda>m1.
             bind_res
               (if extra_skins \<noteq> [] then
                  bind_res (dict_get extra_skins (hd (sorted_reverse (map fst extra_skins))))
                    (\<lambda>e. Inr [(8, e)])
                else Inr []) (\<lambda>m8.
             Inr (m1 @ m8)))) (\<lambda>tex_map.
        let tex_map = (if tex_map = [] \<and> plain_texture \<noteq> None
                       then [(11, the plain_texture)] else tex_map);
            tex_map = (if tex_map = []
                       then (case all_blps of [] \<Rightarrow> [] | blp # rest \<Rightarrow> [(11, blp)])
                       else tex_map)
        in Inr tex_map))"

text \<open>The names that \<open>all_blps\<close> keeps of a directory listing, in sorted order:
  \<open>.blp\<close> files whose stem starts with the model's base name, without regard to case.\<close>

definition blp_names :: "string \<Rightarrow> string list \<Rightarrow> string list" where
  "blp_names model_base_lower names =
     sort (filter (\<lambda>n. lower (suffix_of n) = ''.blp'' \<and>
                        startswith (lower (stem_of n)) model_base_lower) names)"

text \<open>\<open>_find_texture_files(m2_dir, model_base)\<close>: the result is the dict \<open>tex_map\<close> from
  texture type to path. \<open>sorted\<close> orders the paths of one directory by their names.\<close>

definition find_texture_files ::
  "filesystem \<Rightarrow> path \<Rightarrow> string \<Rightarrow> py_error + (int \<times> path) list" where
  "find_texture_files fs m2_dir model_base =
     (let model_base_lower = lower model_base in
      if \<not> is_dir fs m2_dir then Inr []
      else
        bind_res (iterdir fs m2_dir) (\<lambda>names.
        let all_blps = map (\<lambda>n. m2_dir @ [n]) (blp_names model_base_lower names);
            skin_prefix_lower = lower (model_base @ ''skin'')
        in choose_textures (classify_loop model_base_lower skin_prefix_lower all_blps) all_blps))"

subsection \<open>Strategy 2: hardcoded paths\<close>



subsection \<open>Both strategies\<close>





text \<open>The directory of the specification's scenario, and one that exists but cannot be
  listed.\<close>

definition hero_fs :: filesystem where
  "hero_fs = \<lparr>is_dir = (\<lambda>p. p = [''models'']),
     iterdir = (\<lambda>p. if p = [''models'']
                     then Inr [''HeroSkin01.blp'', ''HeroSkin00_Extra.blp'', ''HeroSkin00.blp'']
                     else Inl OSError),
     path_exists = (\<lambda>p. False)\<rparr>"


subsection \<open>The naming convention in the words of the specification\<close>

text \<open>A file is a base-skin candidate with suffix \<open>k\<close> when it is a \<open>.blp\<close> file named
  \<open>{base}Skin{k}\<close>, and an extra-skin candidate when it is named \<open>{base}Skin{k}_Extra\<close>,
  both without regard to case; a name that ends in \<open>_Extra\<close> is never a base skin.\<close>

definition is_base_skin :: "string \<Rightarrow> string \<Rightarrow> string \<Rightarrow> bool" where
  "is_base_skin base n k \<longleftrightarrow>
     lower (suffix_of n) = ''.blp'' \<and> lower (stem_of n) = lower base @ ''skin'' @ k \<and>
     \<not> endswith k ''_extra''"

definition is_extra_skin :: "string \<Rightarrow> string \<Rightarrow> string \<Rightarrow> bool" where
  "is_extra_skin base n k \<longleftrightarrow>
     lower (suffix_of n) = ''.blp'' \<and> lower (stem_of n) = lower base @ ''skin'' @ k @ ''_extra''"

definition base_suffixes :: "string \<Rightarrow> string list \<Rightarrow> string set" where
  "base_suffixes base names = {k. \<exists>n \<in> set names. is_base_skin base n k}"

definition extra_suffixes :: "string \<Rightarrow> string list \<Rightarrow> string set" where
  "extra_suffixes base names = {k. \<exists>n \<in> set names. is_extra_skin base n k}"



section \<open>Properties of the keyframe track evaluator\<close>

lemma subscript_in_range:
  "0 \<le> i \<Longrightarrow> i < int (length xs) \<Longrightarrow> subscript xs i = Inr (xs ! nat i)"
  by (simp add: subscript_def)

lemma search_loop_brackets:
  "0 \<le> lo \<Longrightarrow> lo < hi \<Longrightarrow> hi < int (length ts) \<Longrightarrow>
   int (ts ! nat lo) \<le> g \<Longrightarrow> g < int (ts ! nat hi) \<Longrightarrow>
   \<exists>lo'. search_loop ts g lo hi = Inr (lo', lo' + 1) \<and> lo \<le> lo' \<and> lo' + 1 \<le> hi \<and>
         int (ts ! nat lo') \<le> g \<and> g < int (ts ! nat (lo' + 1))"
proof (induction ts g lo hi rule: search_loop.induct)
  case (1 ts g lo hi)
  show ?case
  proof (cases "lo < hi - 1")
    case False
    with "1.prems" have "hi = lo + 1" by simp
    with False "1.prems" show ?thesis
      by (simp add: search_loop.simps)
  next
    case True
    define mid where "mid = (lo + hi) div 2"
    have mid: "lo < mid" "mid < hi" using True by (simp_all add: mid_def)
    then have sub: "subscript ts mid = Inr (ts ! nat mid)"
      using "1.prems" by (simp add: subscript_in_range)
    show ?thesis
    proof (cases "int (ts ! nat mid) \<le> g")
      case le: True
      from "1.IH"(1)[OF True sub[unfolded mid_def] le[unfolded mid_def]] mid "1.prems" le
      obtain lo' where "search_loop ts g mid hi = Inr (lo', lo' + 1)" "mid \<le> lo'" "lo' + 1 \<le> hi"
        "int (ts ! nat lo') \<le> g" "g < int (ts ! nat (lo' + 1))"
        by (auto simp: mid_def)
      then show ?thesis using True sub le mid
        by (subst search_loop.simps) (auto simp: mid_def)
    next
      case gt: False
      from "1.IH"(2)[OF True sub[unfolded mid_def] gt[unfolded mid_def]] mid "1.prems" gt
      obtain lo' where "search_loop ts g lo mid = Inr (lo', lo' + 1)" "lo \<le> lo'" "lo' + 1 \<le> mid"
        "int (ts ! nat lo') \<le> g" "g < int (ts ! nat (lo' + 1))"
        by (auto simp: mid_def)
      then show ?thesis using True sub gt mid
        by (subst search_loop.simps) (auto simp: mid_def)
    qed
  qed
qed

lemma evaluate_track_none:
  "0 \<le> anim_index \<Longrightarrow> no_value track anim_index \<Longrightarrow>
   evaluate_track track anim_index time_ms d is_quat = Inr None"
  by (auto simp: no_value_def evaluate_track_def subscript_in_range bind_res_def Let_def
      split: prod.splits)

lemma evaluate_track_cases:
  fixes time_ms :: int
  assumes nv: "track_values track \<noteq> []"
    and ai: "0 \<le> anim_index" "anim_index < int (length (ranges track))"
    and rg: "ranges track ! nat anim_index = (s, e)" "s < e" "s < length (timestamps track)"
    and len: "length (timestamps track) \<le> length (track_values track)"
    and e': "e' = min e (length (timestamps track))"
    and g: "g = int (timestamps track ! s) + time_ms"
  shows "(time_ms \<le> 0 \<and>
            evaluate_track track anim_index time_ms d is_quat = Inr (Some (track_values track ! s)))
       \<or> (0 < time_ms \<and> int (timestamps track ! (e' - 1)) \<le> g \<and>
            evaluate_track track anim_index time_ms d is_quat = Inr (Some (track_values track ! (e' - 1))))
       \<or> (\<exists>lo. s \<le> lo \<and> lo + 1 < e' \<and>
            int (timestamps track ! lo) \<le> g \<and> g < int (timestamps track ! (lo + 1)) \<and>
            evaluate_track track anim_index time_ms d is_quat =
              interpolate track g is_quat (int lo) (int lo + 1))"
proof -
  let ?ts = "timestamps track" and ?vals = "track_values track"
  have e'1: "s < e'" "e' \<le> length ?ts" "min (int e) (int (length ?ts)) = int e'"
    using rg by (simp_all add: e')
  have sub_s: "subscript ?ts (int s) = Inr (?ts ! s)" "subscript ?vals (int s) = Inr (?vals ! s)"
    using rg len by (simp_all add: subscript_in_range)
  have sub_e: "subscript ?ts (int e' - 1) = Inr (?ts ! (e' - 1))"
    "subscript ?vals (int e' - 1) = Inr (?vals ! (e' - 1))"
    using e'1 len by (simp_all add: subscript_in_range nat_diff_distrib')
  have start: "evaluate_track track anim_index time_ms d is_quat =
    (if time_ms \<le> 0 then Inr (Some (?vals ! s))
     else if int (?ts ! (e' - 1)) \<le> g then Inr (Some (?vals ! (e' - 1)))
     else bind_res (search_loop ?ts g (int s) (int e' - 1))
            (\<lambda>(lo, hi). interpolate track g is_quat lo hi))"
    using nv ai rg sub_s sub_e
    by (simp add: evaluate_track_def subscript_in_range bind_res_def Let_def g e'1(3))
  show ?thesis
  proof (cases "time_ms \<le> 0")
    case True
    then show ?thesis using start by simp
  next
    case pos: False
    show ?thesis
    proof (cases "int (?ts ! (e' - 1)) \<le> g")
      case True
      then show ?thesis using start pos by simp
    next
      case False
      have "int s < int e' - 1"
      proof (rule ccontr)
        assume "\<not> int s < int e' - 1"
        with e'1 have "e' - 1 = s" by linarith
        with False pos show False by (simp add: g)
      qed
      moreover have "int (?ts ! nat (int s)) \<le> g" using pos by (simp add: g)
      moreover have "g < int (?ts ! nat (int e' - 1))"
        using False e'1 by (simp add: nat_diff_distrib')
      moreover have "int e' - 1 < int (length ?ts)" using e'1 by simp
      ultimately obtain lo' where lo': "search_loop ?ts g (int s) (int e' - 1) = Inr (lo', lo' + 1)"
        "int s \<le> lo'" "lo' + 1 \<le> int e' - 1" "int (?ts ! nat lo') \<le> g" "g < int (?ts ! nat (lo' + 1))"
        using search_loop_brackets[of "int s" "int e' - 1" ?ts g] by auto
      have n: "s \<le> nat lo'" "nat lo' + 1 < e'" "int (nat lo') = lo'" "nat (lo' + 1) = nat lo' + 1"
        using lo'(2,3) by linarith+
      have ev: "evaluate_track track anim_index time_ms d is_quat =
          interpolate track g is_quat (int (nat lo')) (int (nat lo') + 1)"
        using start pos False lo'(1) n(3) by (simp add: bind_res_def)
      have "int (?ts ! nat lo') \<le> g \<and> g < int (?ts ! (nat lo' + 1))"
        using lo'(4,5) n(4) by simp
      with n(1,2) ev show ?thesis by blast
    qed
  qed
qed

lemma interpolate_verbatim:
  assumes "interp_type track = 0 \<or> timestamps track ! hi = timestamps track ! lo"
    and "lo < length (track_values track)" "lo < length (timestamps track)" "hi < length (timestamps track)"
  shows "interpolate track g is_quat (int lo) (int hi) = Inr (Some (track_values track ! lo))"
  using assms by (auto simp: interpolate_def subscript_in_range bind_res_def Let_def)

lemma lerp_ok: "length a = length b \<Longrightarrow> \<exists>v. lerp a b t = Inr v \<and> length v = length a"
  by (simp add: lerp_def)

lemma nlerp_ok: "length a = 4 \<Longrightarrow> length b = 4 \<Longrightarrow> \<exists>v. nlerp a b t = Inr v"
  by (simp add: nlerp_def quat_dot_def lerp_def bind_res_def Let_def)

lemma interpolate_total:
  assumes "track_ok is_quat track" "lo < length (timestamps track)" "hi < length (timestamps track)"
    and "timestamps track ! lo < timestamps track ! hi"
  shows "\<exists>v. interpolate track g is_quat (int lo) (int hi) = Inr (Some v)"
proof -
  let ?a = "track_values track ! lo" and ?b = "track_values track ! hi"
  have len: "length (track_values track) = length (timestamps track)"
    using assms(1) by (simp add: track_ok_def)
  have shape: "length ?a = (if is_quat then 4 else 3)" "length ?b = (if is_quat then 4 else 3)"
    using assms by (simp_all add: track_ok_def list_all_length)
  have "\<exists>v. (if is_quat then nlerp ?a ?b t else lerp ?a ?b t) = Inr v" for t
    using shape nlerp_ok[of ?a ?b t] lerp_ok[of ?a ?b t] by (cases is_quat) auto
  then obtain v where v: "(if is_quat then nlerp ?a ?b
        (real_of_int (g - int (timestamps track ! lo)) /
         real_of_int (int (timestamps track ! hi) - int (timestamps track ! lo)))
      else lerp ?a ?b (real_of_int (g - int (timestamps track ! lo)) /
         real_of_int (int (timestamps track ! hi) - int (timestamps track ! lo)))) = Inr v"
    by blast
  show ?thesis
  proof (cases "interp_type track = 0")
    case True
    then show ?thesis using assms len
      by (simp add: interpolate_verbatim)
  next
    case False
    then show ?thesis using assms(2-4) len v
      by (cases is_quat) (simp_all add: interpolate_def subscript_in_range bind_res_def true_div_def)
  qed
qed

lemma evaluate_track_some:
  assumes ok: "track_ok is_quat track" and ai: "0 \<le> anim_index"
    and nn: "\<not> no_value track anim_index"
  shows "\<exists>v. evaluate_track track anim_index time_ms d is_quat = Inr (Some v)"
proof -
  obtain s e where se: "ranges track ! nat anim_index = (s, e)" by (cases "ranges track ! nat anim_index")
  from nn se have c: "track_values track \<noteq> []" "anim_index < int (length (ranges track))"
    "s < e" "s < length (timestamps track)"
    by (auto simp: no_value_def)
  from ok have len: "length (track_values track) = length (timestamps track)"
    by (simp add: track_ok_def)
  define e' where "e' = min e (length (timestamps track))"
  define g where "g = int (timestamps track ! s) + time_ms"
  from evaluate_track_cases[OF c(1) ai c(2) se c(3,4) _ e'_def g_def, of d is_quat] len
  consider "evaluate_track track anim_index time_ms d is_quat = Inr (Some (track_values track ! s))"
    | "evaluate_track track anim_index time_ms d is_quat = Inr (Some (track_values track ! (e' - 1)))"
    | lo where "lo + 1 < e'" "int (timestamps track ! lo) \<le> g" "g < int (timestamps track ! (lo + 1))"
        "evaluate_track track anim_index time_ms d is_quat = interpolate track g is_quat (int lo) (int lo + 1)"
    by auto
  then show ?thesis
  proof cases
    case 3
    have "lo < length (timestamps track)" "lo + 1 < length (timestamps track)"
      "timestamps track ! lo < timestamps track ! (lo + 1)"
      using 3(1-3) by (simp_all add: e'_def)
    from interpolate_total[OF ok this, of g]
    obtain v where "interpolate track g is_quat (int lo) (int (lo + 1)) = Inr (Some v)" by blast
    moreover have "int (lo + 1) = int lo + 1" by simp
    ultimately show ?thesis using 3(4) by metis
  qed simp_all
qed

text \<open>
  Claim C3. For a track that satisfies the data model's invariant (as many values as
  timestamps, every value of the track's kind) and an animation index that is a position
  (not negative), \<open>evaluate_track\<close> returns \<open>None\<close> exactly when the track has no
  values, or the index is beyond \<open>track.ranges\<close>, or the selected range is empty, or its
  start is at or beyond the end of the timestamps; in every other case it returns a value,
  and it never raises.
\<close>

theorem evaluate_track_no_value_iff:
  assumes "track_ok is_quat track" and "0 \<le> anim_index"
  shows "(evaluate_track track anim_index time_ms anim_duration is_quat = Inr None
            \<longleftrightarrow> no_value track anim_index)
       \<and> (\<exists>r. evaluate_track track anim_index time_ms anim_duration is_quat = Inr r)"
proof (cases "no_value track anim_index")
  case True
  with assms(2) show ?thesis by (simp add: evaluate_track_none)
next
  case False
  from evaluate_track_some[OF assms False, of time_ms anim_duration] False
  show ?thesis by auto
qed

text \<open>
  The theorem at a two-keyframe linear track: animation 0 yields a value, animation 1
  (an empty range) and animation 2 (no such range) yield \<open>None\<close>.
\<close>

theorem evaluate_track_no_value_iff_witness:
  "track_ok False demo_track \<and> \<not> no_value demo_track 0 \<and> no_value demo_track 1
     \<and> no_value demo_track 2
     \<and> evaluate_track demo_track 0 5 0 False \<noteq> Inr None
     \<and> evaluate_track demo_track 1 5 0 False = Inr None
     \<and> evaluate_track demo_track 2 5 0 False = Inr None"
proof -
  have ok: "track_ok False demo_track" by (simp add: track_ok_def demo_track_def)
  have nv: "\<not> no_value demo_track 0" "no_value demo_track 1" "no_value demo_track 2"
    by (simp_all add: no_value_def demo_track_def)
  show ?thesis
    using ok nv evaluate_track_no_value_iff[OF ok, of 0 5 0]
      evaluate_track_no_value_iff[OF ok, of 1 5 0] evaluate_track_no_value_iff[OF ok, of 2 5 0]
    by simp
qed




text \<open>
  Claim C6. On a step track (\<open>interp_type = 0\<close>) the evaluator returns a stored
  sample verbatim: the first sample of the range at or before its first timestamp, the last
  one at or after its last timestamp, and otherwise the earlier sample \<open>i\<close> of the
  bracketing pair \<open>timestamps[i] \<le> global_time < timestamps[i+1]\<close>. The statements
  after the search return \<open>values[lo]\<close> whenever the track is a step track or the two
  timestamps are equal, so no division by the timestamp difference takes place
  (a division by zero would be the result \<open>Inl ZeroDivisionError\<close>).
\<close>

theorem step_track_returns_stored_sample:
  fixes time_ms :: int
  assumes ok: "track_ok is_quat track" and ai: "0 \<le> anim_index"
    and nn: "\<not> no_value track anim_index"
    and rg: "ranges track ! nat anim_index = (s, e)"
    and e': "e' = min e (length (timestamps track))"
    and g: "g = int (timestamps track ! s) + time_ms"
  shows "(interp_type track = 0 \<longrightarrow>
           (\<exists>i. s \<le> i \<and> i < e' \<and> earlier_sample track s e' g i \<and>
              evaluate_track track anim_index time_ms anim_duration is_quat =
                Inr (Some (track_values track ! i))))
       \<and> (\<forall>lo hi g'. lo < length (timestamps track) \<and> hi < length (timestamps track) \<and>
             (interp_type track = 0 \<or> timestamps track ! hi = timestamps track ! lo) \<longrightarrow>
             interpolate track g' is_quat (int lo) (int hi) = Inr (Some (track_values track ! lo)))"
proof (intro conjI impI allI)
  fix lo hi g'
  assume "lo < length (timestamps track) \<and> hi < length (timestamps track) \<and>
             (interp_type track = 0 \<or> timestamps track ! hi = timestamps track ! lo)"
  then show "interpolate track g' is_quat (int lo) (int hi) = Inr (Some (track_values track ! lo))"
    using ok by (intro interpolate_verbatim) (auto simp: track_ok_def)
next
  assume step: "interp_type track = 0"
  from nn rg have c: "track_values track \<noteq> []" "anim_index < int (length (ranges track))"
    "s < e" "s < length (timestamps track)"
    by (auto simp: no_value_def)
  from ok have len: "length (track_values track) = length (timestamps track)"
    by (simp add: track_ok_def)
  have se': "s < e'" "e' \<le> length (timestamps track)" using c by (simp_all add: e')
  from evaluate_track_cases[OF c(1) ai c(2) rg c(3,4) _ e' g, of anim_duration is_quat] len
  consider "time_ms \<le> 0"
      "evaluate_track track anim_index time_ms anim_duration is_quat = Inr (Some (track_values track ! s))"
    | "int (timestamps track ! (e' - 1)) \<le> g"
      "evaluate_track track anim_index time_ms anim_duration is_quat = Inr (Some (track_values track ! (e' - 1)))"
    | lo where "s \<le> lo" "lo + 1 < e'" "int (timestamps track ! lo) \<le> g" "g < int (timestamps track ! (lo + 1))"
        "evaluate_track track anim_index time_ms anim_duration is_quat = interpolate track g is_quat (int lo) (int lo + 1)"
    by auto
  then show "\<exists>i. s \<le> i \<and> i < e' \<and> earlier_sample track s e' g i \<and>
              evaluate_track track anim_index time_ms anim_duration is_quat =
                Inr (Some (track_values track ! i))"
  proof cases
    case 1
    then show ?thesis using se' by (intro exI[of _ s]) (simp add: earlier_sample_def g)
  next
    case 2
    then show ?thesis using se' by (intro exI[of _ "e' - 1"]) (simp add: earlier_sample_def)
  next
    case 3
    have "interpolate track g is_quat (int lo) (int (lo + 1)) = Inr (Some (track_values track ! lo))"
      using step 3(2) se' len by (intro interpolate_verbatim) simp_all
    moreover have "int (lo + 1) = int lo + 1" by simp
    ultimately have "evaluate_track track anim_index time_ms anim_duration is_quat =
        Inr (Some (track_values track ! lo))"
      using 3(5) by metis
    then show ?thesis using 3(1-4) by (intro exI[of _ lo]) (simp add: earlier_sample_def)
  qed
qed

text \<open>
  The theorem at a step track with keyframes at 0, 10 and 20 ms, sampled at 15 ms.
\<close>

theorem step_track_returns_stored_sample_witness:
  "track_ok False step_track \<and> \<not> no_value step_track 0 \<and> interp_type step_track = 0
   \<and> evaluate_track step_track 0 15 0 False = Inr (Some [2, 2, 2])
   \<and> interpolate step_track 15 False 1 2 = Inr (Some [2, 2, 2])"
proof -
  have ok: "track_ok False step_track" by (simp add: track_ok_def step_track_def)
  have nv: "\<not> no_value step_track 0" by (simp add: no_value_def step_track_def)
  have rg: "ranges step_track ! nat 0 = (0, 3)" by (simp add: step_track_def)
  have e': "3 = min 3 (length (timestamps step_track))" by (simp add: step_track_def)
  have g: "(15::int) = int (timestamps step_track ! 0) + 15" by (simp add: step_track_def)
  have z: "(0::int) \<le> 0" by simp
  have st: "interp_type step_track = 0" by (simp add: step_track_def)
  note th = step_track_returns_stored_sample[OF ok z nv rg e' g, of 0]
  from th st obtain i where i: "i < 3" "earlier_sample step_track 0 3 15 i"
    "evaluate_track step_track 0 15 0 False = Inr (Some (track_values step_track ! i))"
    by blast
  from i(1,2) have "i = 1"
    by (auto simp: earlier_sample_def step_track_def nth_Cons' split: if_splits)
  with i(3) have ev: "evaluate_track step_track 0 15 0 False = Inr (Some [2, 2, 2])"
    by (simp add: step_track_def)
  have "interpolate step_track 15 False (int 1) (int 2) = Inr (Some (track_values step_track ! 1))"
    by (rule th[THEN conjunct2, rule_format]) (simp add: step_track_def)
  then have "interpolate step_track 15 False 1 2 = Inr (Some [2, 2, 2])"
    by (simp add: step_track_def)
  with ok nv st ev show ?thesis by blast
qed

section \<open>Properties of the skinning deformer\<close>

lemma upt_4: "[0..<4] = [0, 1, 2, 3]" and upt_3: "[0..<3] = [0, 1, 2]"
  by (simp_all add: upt_rec)

lemma matvec_length: "length (matvec a p) = 4"
  by (simp add: matvec_def)

lemma accumulate_step:
  assumes "length deformed = 3"
  shows "map2 (+) deformed (map (\<lambda>c. k * c) (take 3 (matvec a p)))
       = map (\<lambda>c. deformed ! c + k * (matvec a p ! c)) [0..<3]"
proof -
  obtain d0 d1 d2 where d: "deformed = [d0, d1, d2]"
    using assms by (cases deformed; cases "tl deformed"; cases "tl (tl deformed)") auto
  show ?thesis by (simp add: d matvec_def upt_4 upt_3)
qed

lemma slot_loop_sum:
  "length deformed = 3 \<Longrightarrow>
   slot_loop ms v p js deformed =
     map (\<lambda>c. deformed ! c +
            (\<Sum>j\<leftarrow>filter (slot_active ms v) js.
               (real (slot (bone_weights v) j) / 255) *
               (matvec (ms ! slot (bone_indices v) j) p ! c))) [0..<3]"
proof (induction js arbitrary: deformed)
  case Nil
  then obtain d0 d1 d2 where "deformed = [d0, d1, d2]"
    by (cases deformed; cases "tl deformed"; cases "tl (tl deformed)") auto
  then show ?case by (simp add: upt_3)
next
  case (Cons j js)
  show ?case
  proof (cases "slot_active ms v j")
    case False
    then show ?thesis using Cons by (auto simp: slot_active_def Let_def)
  next
    case True
    let ?d = "map (\<lambda>c. deformed ! c + (real (slot (bone_weights v) j) / 255) *
                 (matvec (ms ! slot (bone_indices v) j) p ! c)) [0..<3]"
    have len: "length ?d = 3" by simp
    have "slot_loop ms v p (j # js) deformed = slot_loop ms v p js ?d"
      using True Cons.prems by (simp add: slot_active_def Let_def accumulate_step)
    also have "\<dots> = map (\<lambda>c. ?d ! c +
            (\<Sum>j\<leftarrow>filter (slot_active ms v) js.
               (real (slot (bone_weights v) j) / 255) *
               (matvec (ms ! slot (bone_indices v) j) p ! c))) [0..<3]"
      by (rule Cons.IH[OF len])
    finally show ?thesis using True by (simp add: upt_3 algebra_simps)
  qed
qed

lemma deform_vertex_weighted_sum: "deform_vertex ms v = weighted_sum ms v"
proof -
  obtain x y z where p: "pos v = (x, y, z)" by (cases "pos v")
  show ?thesis
    by (simp add: deform_vertex_def weighted_sum_def p slot_loop_sum upt_3)
qed

text \<open>
  Claim C4. Every output row of the deformer is the sum, over exactly the slots whose
  weight is not zero and whose bone index is within the matrix array, of weight/255 times
  the slot's bone matrix applied to the homogeneous rest-pose position. The loop is total
  and works row by row, so an out-of-range slot fails no vertex; and the bone index of a
  zero-weight slot is never looked at: changing it leaves the output unchanged.
\<close>

theorem vertex_loop_weighted_sum:
  "vertex_loop bone_matrices vs = map (weighted_sum bone_matrices) vs
   \<and> (\<forall>v v'. pos v' = pos v \<and> bone_weights v' = bone_weights v \<and>
         (\<forall>j<4. slot (bone_weights v) j \<noteq> 0 \<longrightarrow>
                 slot (bone_indices v') j = slot (bone_indices v) j) \<longrightarrow>
         deform_vertex bone_matrices v' = deform_vertex bone_matrices v)"
proof (intro conjI allI impI)
  show "vertex_loop bone_matrices vs = map (weighted_sum bone_matrices) vs"
    by (simp add: vertex_loop_def deform_vertex_weighted_sum)
next
  fix v v' :: M2Vertex
  assume h: "pos v' = pos v \<and> bone_weights v' = bone_weights v \<and>
         (\<forall>j<4. slot (bone_weights v) j \<noteq> 0 \<longrightarrow>
                 slot (bone_indices v') j = slot (bone_indices v) j)"
  have "filter (slot_active bone_matrices v') [0..<4] = filter (slot_active bone_matrices v) [0..<4]"
    using h by (intro filter_cong) (auto simp: slot_active_def)
  moreover have "\<forall>j \<in> set (filter (slot_active bone_matrices v) [0..<4]).
      slot (bone_indices v') j = slot (bone_indices v) j"
    using h by (auto simp: slot_active_def)
  ultimately have "weighted_sum bone_matrices v' = weighted_sum bone_matrices v"
    using h unfolding weighted_sum_def
    by (auto intro!: arg_cong[where f = sum_list] map_cong)
  then show "deform_vertex bone_matrices v' = deform_vertex bone_matrices v"
    by (simp add: deform_vertex_weighted_sum)
qed

text \<open>
  The theorem at a vertex whose three zero-weight slots carry the stale indices 7, 8, 9.
\<close>

theorem vertex_loop_weighted_sum_witness:
  "bone_weights (rest_vertex (255, 0, 0, 0) (0, 7, 8, 9)) = bone_weights (rest_vertex (255, 0, 0, 0) (0, 0, 0, 0))
   \<and> deform_vertex [eye4] (rest_vertex (255, 0, 0, 0) (0, 7, 8, 9)) =
       deform_vertex [eye4] (rest_vertex (255, 0, 0, 0) (0, 0, 0, 0))"
proof -
  let ?v = "rest_vertex (255, 0, 0, 0) (0, 0, 0, 0)" and ?v' = "rest_vertex (255, 0, 0, 0) (0, 7, 8, 9)"
  have "pos ?v' = pos ?v \<and> bone_weights ?v' = bone_weights ?v \<and>
         (\<forall>j<4. slot (bone_weights ?v) j \<noteq> 0 \<longrightarrow>
                 slot (bone_indices ?v') j = slot (bone_indices ?v) j)"
    by (simp add: rest_vertex_def)
  with vertex_loop_weighted_sum[of "[eye4]" "[]"] show ?thesis by blast
qed

lemma matvec_eye4: "matvec eye4 [x, y, z, 1] = [x, y, z, 1]"
  by (simp add: matvec_def eye4_def mat4_def upt_4)

text \<open>
  Claim C5. Weight conservation: when the four weights sum to 255 and every slot with a
  non-zero weight refers to an identity matrix of the array, the output is the rest-pose
  position, however many slots carry weight. Floats are idealised as reals, so the
  equality is exact here; in floating point it holds up to rounding.
\<close>

theorem identity_bones_preserve_rest_pose:
  assumes total: "(\<Sum>j\<leftarrow>[0..<4]. slot (bone_weights v) j) = 255"
    and ident: "\<forall>j<4. slot (bone_weights v) j \<noteq> 0 \<longrightarrow>
                  slot (bone_indices v) j < length bone_matrices \<and>
                  bone_matrices ! slot (bone_indices v) j = eye4"
  shows "deform_vertex bone_matrices v = np_array3 (pos v)"
proof -
  obtain x y z where p: "pos v = (x, y, z)" by (cases "pos v")
  let ?w = "\<lambda>j. real (slot (bone_weights v) j)"
  have tm: "(\<Sum>j\<leftarrow>filter (slot_active bone_matrices v) js.
                 (?w j / 255) * (matvec (bone_matrices ! slot (bone_indices v) j) [x, y, z, 1] ! c))
            = (\<Sum>j\<leftarrow>js. ?w j) / 255 * ([x, y, z, 1] ! c)" if "set js \<subseteq> {0..<4}" for js c
    using that
  proof (induction js)
    case Nil
    then show ?case by simp
  next
    case (Cons j js)
    then have j: "j < 4" by simp
    show ?case
    proof (cases "slot (bone_weights v) j = 0")
      case True
      then show ?thesis using Cons by (simp add: slot_active_def)
    next
      case False
      with ident j have "slot_active bone_matrices v j"
        "bone_matrices ! slot (bone_indices v) j = eye4"
        by (auto simp: slot_active_def)
      then show ?thesis using Cons by (simp add: matvec_eye4 algebra_simps add_divide_distrib)
    qed
  qed
  have "(\<Sum>j\<leftarrow>[0..<4]. ?w j) = real (\<Sum>j\<leftarrow>[0..<4]. slot (bone_weights v) j)"
    by (simp add: upt_4)
  then have one: "(\<Sum>j\<leftarrow>[0..<4]. ?w j) / 255 = 1" using total by simp
  have "weighted_sum bone_matrices v =
      map (\<lambda>c. (\<Sum>j\<leftarrow>[0..<4]. ?w j) / 255 * ([x, y, z, 1] ! c)) [0..<3]"
    unfolding weighted_sum_def p homogeneous.simps
    by (rule map_cong[OF refl], rule tm) simp
  also have "\<dots> = [x, y, z]" unfolding one by (simp add: upt_3)
  finally show ?thesis
    by (simp add: deform_vertex_weighted_sum p)
qed

text \<open>
  The theorem with the weight spread over two slots, and with all of it in one.
\<close>

theorem identity_bones_preserve_rest_pose_witness:
  "deform_vertex [eye4, eye4] (rest_vertex (100, 0, 155, 0) (1, 9, 0, 9)) = [1, 2, 3]
   \<and> deform_vertex [eye4] (rest_vertex (255, 0, 0, 0) (0, 0, 0, 0)) = [1, 2, 3]"
proof -
  have a: "deform_vertex [eye4, eye4] (rest_vertex (100, 0, 155, 0) (1, 9, 0, 9)) =
        np_array3 (pos (rest_vertex (100, 0, 155, 0) (1, 9, 0, 9)))"
  proof (rule identity_bones_preserve_rest_pose)
    show "(\<Sum>j\<leftarrow>[0..<4]. slot (bone_weights (rest_vertex (100, 0, 155, 0) (1, 9, 0, 9))) j) = 255"
      by (simp add: rest_vertex_def upt_4)
    show "\<forall>j<4. slot (bone_weights (rest_vertex (100, 0, 155, 0) (1, 9, 0, 9))) j \<noteq> 0 \<longrightarrow>
      slot (bone_indices (rest_vertex (100, 0, 155, 0) (1, 9, 0, 9))) j < length [eye4, eye4] \<and>
      [eye4, eye4] ! slot (bone_indices (rest_vertex (100, 0, 155, 0) (1, 9, 0, 9))) j = eye4"
      by (simp add: rest_vertex_def)
  qed
  have b: "deform_vertex [eye4] (rest_vertex (255, 0, 0, 0) (0, 0, 0, 0)) =
        np_array3 (pos (rest_vertex (255, 0, 0, 0) (0, 0, 0, 0)))"
    by (rule identity_bones_preserve_rest_pose) (simp_all add: rest_vertex_def upt_4)
  from a b show ?thesis by (simp add: rest_vertex_def)
qed

text \<open>
  Claim C9. A vertex none of whose slots is active (each weight is zero or its bone index
  is outside the matrix array) is output as the origin: the accumulator starts at zero and
  nothing is added.
\<close>

theorem no_active_slot_gives_origin:
  assumes "\<forall>j<4. slot (bone_weights v) j = 0 \<or> length bone_matrices \<le> slot (bone_indices v) j"
  shows "deform_vertex bone_matrices v = [0, 0, 0]"
proof -
  have "filter (slot_active bone_matrices v) [0..<4] = []"
    using assms by (auto simp: filter_empty_conv slot_active_def)
  then show ?thesis
    by (simp add: deform_vertex_weighted_sum weighted_sum_def upt_3)
qed

text \<open>
  The theorem at a vertex at (1, 2, 3) with four zero weights, whose output is the origin
  and not its rest position, and at one whose two weighted slots point past the array.
\<close>

theorem no_active_slot_gives_origin_witness:
  "deform_vertex [eye4] (rest_vertex (0, 0, 0, 0) (0, 0, 0, 0)) = [0, 0, 0]
   \<and> deform_vertex [eye4] (rest_vertex (0, 0, 0, 0) (0, 0, 0, 0))
       \<noteq> np_array3 (pos (rest_vertex (0, 0, 0, 0) (0, 0, 0, 0)))
   \<and> deform_vertex [eye4] (rest_vertex (200, 55, 0, 0) (1, 4, 0, 0)) = [0, 0, 0]"
proof -
  have a: "deform_vertex [eye4] (rest_vertex (0, 0, 0, 0) (0, 0, 0, 0)) = [0, 0, 0]"
    by (rule no_active_slot_gives_origin) (simp add: rest_vertex_def)
  have b: "deform_vertex [eye4] (rest_vertex (200, 55, 0, 0) (1, 4, 0, 0)) = [0, 0, 0]"
    by (rule no_active_slot_gives_origin) (simp add: rest_vertex_def)
  from a b show ?thesis by (simp add: rest_vertex_def)
qed

section \<open>Properties of the bone hierarchy resolver\<close>

lemma eye4_rows: "eye4 = [[1, 0, 0, 0], [0, 1, 0, 0], [0, 0, 1, 0], [0, 0, 0, 1]]"
  by (simp add: eye4_def mat4_def upt_4)

lemma identity_defaults:
  "Translate (0, 0, 0) = eye4" "Rotate (0, 0, 0, 1) = eye4" "Scale (1, 1, 1) = eye4"
  by (simp_all add: eye4_rows)

lemma assign_col3_Translate: "assign_col3 eye4 [x, y, z] = Inr (Translate (x, y, z))"
  by (simp add: assign_col3_def mat_set_def mat4_def upt_4 eye4_rows)

lemma mat_set_Scale:
  "mat_set (mat_set (mat_set eye4 0 0 x) 1 1 y) 2 2 z = Scale (x, y, z)"
  by (simp add: mat_set_def mat4_def upt_4 eye4_rows)

lemma quat_to_matrix_Rotate:
  "quat_to_matrix [x, y, z, w] = Inr r \<Longrightarrow> assign_block3 eye4 r = Rotate (x, y, z, w)"
  by (auto simp: quat_to_matrix_def assign_block3_def mat4_def upt_4 eye4_rows Let_def)

lemma list3: "length v = 3 \<Longrightarrow> v = [v ! 0, v ! 1, v ! 2]"
  by (cases v; cases "tl v"; cases "tl (tl v)") auto

lemma list4: "length v = 4 \<Longrightarrow> v = [v ! 0, v ! 1, v ! 2, v ! 3]"
  by (cases v; cases "tl v"; cases "tl (tl v)"; cases "tl (tl (tl v))") auto

lemma subscript_in_set: "subscript xs i = Inr x \<Longrightarrow> x \<in> set xs"
  by (auto simp: subscript_def split: if_splits)

lemma lerp_length: "lerp a b t = Inr v \<Longrightarrow> length v = length a"
  by (auto simp: lerp_def split: if_splits)

lemma nlerp_length: "nlerp a b t = Inr v \<Longrightarrow> length a = 4 \<Longrightarrow> length v = 4"
  by (auto simp: nlerp_def bind_res_def Let_def dest: lerp_length split: sum.splits if_splits)

lemma map_sum_Some_iff: "map_sum id Some m = Inr (Some v) \<longleftrightarrow> m = Inr v"
  by (cases m) auto

lemma interpolate_shape:
  assumes "list_all (\<lambda>v. length v = n) (track_values track)" "is_quat \<longrightarrow> n = 4"
    and "interpolate track g is_quat lo hi = Inr (Some v)"
  shows "length v = n"
proof -
  have el: "subscript (track_values track) i = Inr x \<Longrightarrow> length x = n" for i x
    using assms(1) subscript_in_set[of "track_values track" i x] by (auto simp: list_all_iff)
  show ?thesis
    using assms(2,3)
    by (auto simp: interpolate_def bind_res_def Let_def map_sum_Some_iff
        dest!: el dest: lerp_length nlerp_length split: sum.splits if_splits)
qed

lemma evaluate_track_shape:
  assumes "list_all (\<lambda>v. length v = n) (track_values track)" "is_quat \<longrightarrow> n = 4"
    and "evaluate_track track anim_index time_ms d is_quat = Inr (Some v)"
  shows "length v = n"
proof -
  have el: "subscript (track_values track) i = Inr x \<Longrightarrow> length x = n" for i x
    using assms(1) subscript_in_set[of "track_values track" i x] by (auto simp: list_all_iff)
  show ?thesis
    using assms(3) interpolate_shape[OF assms(1,2)]
    by (auto simp: evaluate_track_def bind_res_def Let_def map_sum_Some_iff
        dest!: el split: sum.splits if_splits prod.splits)
qed


lemma translation_matrix:
  assumes "\<And>v. tr = Some v \<Longrightarrow> length v = 3"
  shows "(case tr of None \<Rightarrow> Inr eye4 | Some v \<Rightarrow> assign_col3 eye4 v)
       = Inr (Translate (track_translation tr))"
proof (cases tr)
  case None
  then show ?thesis by (simp add: track_translation_def eye4_rows)
next
  case (Some v)
  with assms have "v = [v ! 0, v ! 1, v ! 2]" by (intro list3) simp
  then have "assign_col3 eye4 v = Inr (Translate (v ! 0, v ! 1, v ! 2))"
    using assign_col3_Translate[of "v ! 0" "v ! 1" "v ! 2"] by simp
  with Some show ?thesis by (simp add: track_translation_def)
qed

lemma scale_matrix:
  assumes "\<And>v. sc = Some v \<Longrightarrow> length v = 3"
  shows "(case sc of None \<Rightarrow> Inr eye4
          | Some s \<Rightarrow>
              bind_res (subscript s 0) (\<lambda>s0.
              bind_res (subscript s 1) (\<lambda>s1.
              bind_res (subscript s 2) (\<lambda>s2.
              Inr (mat_set (mat_set (mat_set eye4 0 0 s0) 1 1 s1) 2 2 s2)))))
       = Inr (Scale (track_scale sc))"
proof (cases sc)
  case None
  then show ?thesis by (simp add: track_scale_def eye4_rows)
next
  case (Some v)
  with assms have "length v = 3" by simp
  then show ?thesis using Some
    by (simp add: track_scale_def subscript_def bind_res_def mat_set_Scale
        del: One_nat_def Scale.simps) simp
qed

lemma rotation_matrix:
  assumes "\<And>v. rot = Some v \<Longrightarrow> length v = 4"
  shows "(case rot of None \<Rightarrow> Inr eye4
          | Some q \<Rightarrow> bind_res (quat_to_matrix q) (\<lambda>r. Inr (assign_block3 eye4 r)))
       = Inr (Rotate (track_rotation rot))"
proof (cases rot)
  case None
  then show ?thesis by (simp add: track_rotation_def eye4_rows)
next
  case (Some v)
  with assms have v: "v = [v ! 0, v ! 1, v ! 2, v ! 3]" by (intro list4) simp
  obtain r where r: "quat_to_matrix [v ! 0, v ! 1, v ! 2, v ! 3] = Inr r"
    by (simp add: quat_to_matrix_def Let_def)
  from quat_to_matrix_Rotate[OF r] r v Some show ?thesis
    by (simp add: track_rotation_def bind_res_def)
qed

lemma local_transform_eq:
  assumes sh: "bone_shaped bone"
    and tr: "evaluate_track (translation bone) a t d False = Inr tr"
    and rot: "evaluate_track (rotation bone) a t d True = Inr rot"
    and sc: "evaluate_track (scale bone) a t d False = Inr sc"
  shows "local_transform bone a t d =
           Inr (local_product (pivot bone) (track_translation tr) (track_rotation rot) (track_scale sc))"
proof -
  obtain x y z where p: "pivot bone = (x, y, z)" by (cases "pivot bone")
  have s1: "\<And>v. tr = Some v \<Longrightarrow> length v = 3"
    using sh tr evaluate_track_shape[of 3 "translation bone" False a t d] by (simp add: bone_shaped_def)
  have s2: "\<And>v. rot = Some v \<Longrightarrow> length v = 4"
    using sh rot evaluate_track_shape[of 4 "rotation bone" True a t d] by (simp add: bone_shaped_def)
  have s3: "\<And>v. sc = Some v \<Longrightarrow> length v = 3"
    using sh sc evaluate_track_shape[of 3 "scale bone" False a t d] by (simp add: bone_shaped_def)
  show ?thesis
    unfolding local_transform_def Let_def tr rot sc p np_array3.simps
    by (simp add: bind_res_def assign_col3_Translate translation_matrix[OF s1]
        rotation_matrix[OF s2] scale_matrix[OF s3] local_product_def
        del: Translate.simps Scale.simps Rotate.simps)
qed

lemma local_transform_spec:
  assumes sh: "bone_shaped bone" and l: "local_transform bone a t d = Inr local"
  shows "\<exists>tr rot sc.
           evaluate_track (translation bone) a t d False = Inr tr \<and>
           evaluate_track (rotation bone) a t d True = Inr rot \<and>
           evaluate_track (scale bone) a t d False = Inr sc \<and>
           local = local_product (pivot bone) (track_translation tr) (track_rotation rot) (track_scale sc)"
proof -
  from l obtain tr rot sc where ev:
    "evaluate_track (translation bone) a t d False = Inr tr"
    "evaluate_track (rotation bone) a t d True = Inr rot"
    "evaluate_track (scale bone) a t d False = Inr sc"
    unfolding local_transform_def Let_def bind_res_def
    by (auto split: sum.splits)
  from local_transform_eq[OF sh ev] l ev show ?thesis by auto
qed

lemma cache_store_lookup:
  "cache_lookup (cache_store cache k m) k' =
     (case cache of None \<Rightarrow> None | Some c \<Rightarrow> if k' = k then Some m else c k')"
  by (simp add: cache_lookup_def cache_store_def split: option.splits)

lemma cache_consistent_store:
  "cache_consistent bs a t d cache \<Longrightarrow> world_transform bs a t d k m \<Longrightarrow>
   cache_consistent bs a t d (cache_store cache k m)"
proof (cases cache)
  case None
  then show ?thesis by (simp add: cache_consistent_def cache_store_def cache_lookup_def)
next
  case (Some c)
  assume "cache_consistent bs a t d cache" "world_transform bs a t d k m"
  with Some show ?thesis
    by (simp add: cache_consistent_def cache_store_lookup) (simp add: cache_lookup_def)
qed

lemma evaluate_bone_transform_sound:
  assumes ret: "evaluate_bone_transform bs0 bone_index0 a0 t0 d0 cache0 = Some y0"
  shows "list_all bone_shaped bs0 \<longrightarrow> cache_consistent bs0 a0 t0 d0 cache0 \<longrightarrow>
         (case y0 of Inl e \<Rightarrow> True
          | Inr (world, cache') \<Rightarrow>
              world_transform bs0 a0 t0 d0 bone_index0 world \<and>
              cache_consistent bs0 a0 t0 d0 cache')"
proof (rule evaluate_bone_transform.raw_induct[where P = "\<lambda>bs bone_index a t d cache y.
         list_all bone_shaped bs \<longrightarrow> cache_consistent bs a t d cache \<longrightarrow>
         (case y of Inl e \<Rightarrow> True
          | Inr (world, cache') \<Rightarrow>
              world_transform bs a t d bone_index world \<and> cache_consistent bs a t d cache')",
       OF _ ret], goal_cases)
  case (1 f bs bone_index a t d cache y)
  note IH = 1(1) and eq = 1(2)
  show ?case
  proof (intro impI)
    assume sh: "list_all bone_shaped bs" and cc: "cache_consistent bs a t d cache"
    show "case y of Inl e \<Rightarrow> True
          | Inr (world, cache') \<Rightarrow>
              world_transform bs a t d bone_index world \<and> cache_consistent bs a t d cache'"
    proof (cases "cache_lookup cache bone_index")
      case (Some m)
      with eq have "y = Inr (m, cache)" by simp
      with Some cc show ?thesis by (simp add: cache_consistent_def)
    next
      case None
      show ?thesis
      proof (cases "subscript bs bone_index")
        case (Inl e)
        with None eq show ?thesis by auto
      next
        case (Inr bone)
        then have bsh: "bone_shaped bone"
          using sh subscript_in_set[of bs bone_index bone] by (simp add: list_all_iff)
        show ?thesis
        proof (cases "local_transform bone a t d")
          case (Inl e)
          with None Inr eq show ?thesis by auto
        next
          case loc: (Inr local)
          from local_transform_spec[OF bsh loc] obtain tr rot sc where ev:
            "evaluate_track (translation bone) a t d False = Inr tr"
            "evaluate_track (rotation bone) a t d True = Inr rot"
            "evaluate_track (scale bone) a t d False = Inr sc"
            "local = local_product (pivot bone) (track_translation tr) (track_rotation rot) (track_scale sc)"
            by blast
          show ?thesis
          proof (cases "0 \<le> parent bone")
            case False
            with None Inr loc eq have y: "y = Inr (local, cache_store cache bone_index local)"
              by simp
            have w: "world_transform bs a t d bone_index local"
              unfolding ev(4) using Inr False ev(1-3) by (intro world_transform.root) auto
            with cc y show ?thesis by (simp add: cache_consistent_store)
          next
            case True
            with None Inr loc eq obtain r where
              r: "f bs (parent bone) a t d cache = Some r" and
              y: "(case r of Inl e \<Rightarrow> Some (Inl e)
                   | Inr (parent_mat, cache1) \<Rightarrow>
                       Some (Inr (matmul parent_mat local,
                                  cache_store cache1 bone_index (matmul parent_mat local)))) = Some y"
              by (auto simp: bind_eq_Some_conv)
            show ?thesis
            proof (cases r)
              case (Inl e)
              with y show ?thesis by auto
            next
              case (Inr pc)
              obtain pm c1 where pc: "pc = (pm, c1)" by (cases pc)
              from IH[OF r] sh cc Inr pc
              have pw: "world_transform bs a t d (parent bone) pm" "cache_consistent bs a t d c1"
                by auto
              have w: "world_transform bs a t d bone_index (matmul pm local)"
                unfolding ev(4) using \<open>subscript bs bone_index = Inr bone\<close> True ev(1-3) pw(1)
                by (intro world_transform.child) auto
              from y Inr pc have "y = Inr (matmul pm local, cache_store c1 bone_index (matmul pm local))"
                by auto
              with w pw(2) show ?thesis by (simp add: cache_consistent_store)
            qed
          qed
        qed
      qed
    qed
  qed
qed

text \<open>
  Claim C1. Whenever \<open>evaluate_bone_transform\<close> returns a matrix, it is the world
  transform of the bone as the specification defines it: the local transform is
  Translate(pivot) . Translate(t) . Rotate(r) . Scale(s) . Translate(-pivot), where a track
  without a value contributes its identity (zero translation, identity rotation, unit
  scale), and the world transform is the parent's world transform times the local one
  when the parent index is at least 0, and the local one otherwise. The memoisation does
  not change this: a cache that holds only world transforms (for instance the empty one,
  or none) still holds only world transforms afterwards. The bones' keyframes are vec3
  for translation and scale and quaternions for rotation, as the data model has them.
\<close>

theorem world_transform_refinement:
  assumes "list_all bone_shaped bs"
    and "cache_consistent bs anim_index time_ms anim_duration cache"
    and "evaluate_bone_transform bs bone_index anim_index time_ms anim_duration cache =
           Some (Inr (world, cache'))"
  shows "world_transform bs anim_index time_ms anim_duration bone_index world
       \<and> cache_consistent bs anim_index time_ms anim_duration cache'"
  using evaluate_bone_transform_sound[OF assms(3)] assms(1,2) by simp

lemma evaluate_track_empty: "evaluate_track empty_track a t d q = Inr None"
  by (simp add: evaluate_track_def empty_track_def)

lemma matmul_Translate_inverse:
  "matmul (matmul (matmul (matmul (Translate (x, y, z)) eye4) eye4) eye4) (Translate (- x, - y, - z)) = eye4"
  by (simp add: matmul_def mat4_def upt_4 eye4_rows)

lemma local_transform_still: "local_transform (still_bone p pv) a t d = Inr eye4"
proof -
  obtain x y z where pv: "pv = (x, y, z)" by (cases pv)
  have sh: "bone_shaped (still_bone p pv)"
    by (simp add: bone_shaped_def still_bone_def empty_track_def)
  have ev: "evaluate_track (translation (still_bone p pv)) a t d False = Inr None"
    "evaluate_track (rotation (still_bone p pv)) a t d True = Inr None"
    "evaluate_track (scale (still_bone p pv)) a t d False = Inr None"
    by (simp_all add: still_bone_def evaluate_track_empty)
  have "local_product (x, y, z) (0, 0, 0) (0, 0, 0, 1) (1, 1, 1) = eye4"
    unfolding local_product_def identity_defaults negate3.simps
    by (rule matmul_Translate_inverse)
  then show ?thesis
    using local_transform_eq[OF sh ev]
    by (simp add: track_translation_def track_rotation_def track_scale_def still_bone_def pv)
qed

lemma two_bones_child:
  "evaluate_bone_transform two_bones 1 0 0 0 None = Some (Inr (eye4, None))"
proof -
  have m: "matmul eye4 eye4 = eye4"
    by (simp add: matmul_def mat4_def upt_4 eye4_rows)
  have root: "evaluate_bone_transform two_bones 0 0 0 0 None = Some (Inr (eye4, None))"
    by (subst evaluate_bone_transform.simps)
      (simp add: two_bones_def cache_lookup_def cache_store_def subscript_def
        local_transform_still, simp add: still_bone_def)
  show ?thesis
    by (subst evaluate_bone_transform.simps)
      (simp add: cache_lookup_def cache_store_def subscript_def, 
       simp add: two_bones_def local_transform_still,
       simp add: still_bone_def root[unfolded two_bones_def still_bone_def] m cache_store_def)
qed

text \<open>
  The theorem at a root bone and its child, both without keyframes, evaluated without a
  cache: the child's world transform is the identity.
\<close>

theorem world_transform_refinement_witness:
  "list_all bone_shaped two_bones \<and> cache_consistent two_bones 0 0 0 None
   \<and> evaluate_bone_transform two_bones 1 0 0 0 None = Some (Inr (eye4, None))
   \<and> world_transform two_bones 0 0 0 1 eye4"
proof -
  have sh: "list_all bone_shaped two_bones"
    by (simp add: two_bones_def bone_shaped_def still_bone_def empty_track_def)
  have cc: "cache_consistent two_bones 0 0 0 None"
    by (simp add: cache_consistent_def cache_lookup_def)
  from world_transform_refinement[OF sh cc two_bones_child] sh cc two_bones_child
  show ?thesis by blast
qed












section \<open>Properties of the texture resolver\<close>

lemma lower_append: "lower (a @ b) = lower a @ lower b"
  by (simp add: lower_def)

lemma lower_skin: "lower ''skin'' = ''skin''"
  by (simp add: lower_def lower_char_def)

lemma length_lower: "length (lower s) = length s"
  by (simp add: lower_def)

lemma blp_name_not_root: "lower (suffix_of n) = ''.blp'' \<Longrightarrow> n \<noteq> ''/''"
  by (auto simp: suffix_of_def has_suffix_def lower_def)

lemma path_name_entry: "lower (suffix_of n) = ''.blp'' \<Longrightarrow> path_name (d @ [n]) = n"
  using blp_name_not_root[of n] by (auto simp: path_name_def is_anchor_def)

lemma endswith_extra_split:
  "endswith s ''_extra'' \<Longrightarrow> s = take (length s - 6) s @ ''_extra''"
proof -
  assume "endswith s ''_extra''"
  moreover have "length ''_extra'' = 6" by simp
  ultimately have "drop (length s - 6) s = ''_extra''" unfolding endswith_def by metis
  then show ?thesis using append_take_drop_id[of "length s - 6" s] by simp
qed

lemma endswith_append_extra: "endswith (k @ ''_extra'') ''_extra''"
  by (simp add: endswith_def)

lemma classify_entry:
  assumes blp: "lower (suffix_of n) = ''.blp''"
  shows "\<exists>B' E' P'.
     classify (lower base) (lower (base @ ''skin'')) (d @ [n]) (B, E, P) = (B', E', P') \<and>
     map_of B' = (\<lambda>k. if is_base_skin base n k then Some (d @ [n]) else map_of B k) \<and>
     map_of E' = (\<lambda>k. if is_extra_skin base n k then Some (d @ [n]) else map_of E k)"
proof -
  let ?stem = "lower (stem_of n)" and ?bl = "lower base"
  let ?pre = "lower (base @ ''skin'')"
  have pre: "?pre = ?bl @ ''skin''" "length ?pre = length ?bl + 4"
    by (simp_all add: lower_append lower_skin)
  have no: "\<not> is_base_skin base n k" "\<not> is_extra_skin base n k"
    if "\<not> startswith ?stem ?pre" for k
    using that by (auto simp: is_base_skin_def is_extra_skin_def startswith_def pre)
  show ?thesis
  proof (cases "?stem = ?bl \<or> \<not> startswith ?stem ?pre")
    case True
    then have "\<not> startswith ?stem ?pre"
      by (auto simp: startswith_def pre)
    from no[OF this] True show ?thesis
      by (auto simp: classify_def path_name_entry[OF blp] Let_def)
  next
    case False
    then have sw: "startswith ?stem ?pre" and ne: "?stem \<noteq> ?bl" by auto
    define suffix where "suffix = drop (length ?pre) ?stem"
    have stem: "?stem = ?bl @ ''skin'' @ suffix"
      using sw append_take_drop_id[of "length ?pre" ?stem]
      by (simp add: startswith_def suffix_def pre del: append_take_drop_id)
    show ?thesis
    proof (cases "endswith suffix ''_extra''")
      case True
      define key where "key = take (length suffix - 6) suffix"
      have sk: "suffix = key @ ''_extra''"
        using endswith_extra_split[OF True] by (simp add: key_def)
      have e: "is_extra_skin base n k \<longleftrightarrow> k = key" for k
        using blp stem sk by (auto simp: is_extra_skin_def)
      have b: "\<not> is_base_skin base n k" for k
        using stem True by (auto simp: is_base_skin_def)
      have "classify ?bl ?pre (d @ [n]) (B, E, P) = (B, AList.update key (d @ [n]) E, P)"
        using sw ne True
        by (simp add: classify_def path_name_entry[OF blp] Let_def suffix_def[symmetric] key_def)
      then show ?thesis using e b by (auto simp: update_conv' fun_eq_iff)
    next
      case False
      have b: "is_base_skin base n k \<longleftrightarrow> k = suffix" for k
        using blp stem False by (auto simp: is_base_skin_def)
      have e: "\<not> is_extra_skin base n k" for k
        using stem False endswith_append_extra[of k] by (auto simp: is_extra_skin_def)
      have "classify ?bl ?pre (d @ [n]) (B, E, P) = (AList.update suffix (d @ [n]) B, E, P)"
        using sw ne False
        by (simp add: classify_def path_name_entry[OF blp] Let_def suffix_def[symmetric])
      then show ?thesis using e b by (auto simp: update_conv' fun_eq_iff)
    qed
  qed
qed


lemma classify_loop_inv:
  assumes "\<forall>n \<in> set ns. lower (suffix_of n) = ''.blp''"
  shows "\<exists>B' E' P'.
     fold (classify (lower base) (lower (base @ ''skin''))) (map (\<lambda>n. d @ [n]) ns) (B, E, P)
       = (B', E', P') \<and>
     (\<forall>k. map_of B' k = None \<longleftrightarrow> map_of B k = None \<and> (\<forall>n \<in> set ns. \<not> is_base_skin base n k)) \<and>
     (\<forall>k p. map_of B' k = Some p \<longrightarrow>
         map_of B k = Some p \<or> (\<exists>n \<in> set ns. is_base_skin base n k \<and> p = d @ [n])) \<and>
     (\<forall>k. map_of E' k = None \<longleftrightarrow> map_of E k = None \<and> (\<forall>n \<in> set ns. \<not> is_extra_skin base n k)) \<and>
     (\<forall>k p. map_of E' k = Some p \<longrightarrow>
         map_of E k = Some p \<or> (\<exists>n \<in> set ns. is_extra_skin base n k \<and> p = d @ [n]))"
  using assms
proof (induction ns arbitrary: B E P)
  case Nil
  then show ?case by simp
next
  case (Cons n ns)
  then have blp: "lower (suffix_of n) = ''.blp''" and rest: "\<forall>n \<in> set ns. lower (suffix_of n) = ''.blp''"
    by simp_all
  from classify_entry[OF blp, of base d B E P] obtain B1 E1 P1 where
    c: "classify (lower base) (lower (base @ ''skin'')) (d @ [n]) (B, E, P) = (B1, E1, P1)" and
    b1: "map_of B1 = (\<lambda>k. if is_base_skin base n k then Some (d @ [n]) else map_of B k)" and
    e1: "map_of E1 = (\<lambda>k. if is_extra_skin base n k then Some (d @ [n]) else map_of E k)"
    by blast
  from Cons.IH[OF rest, of B1 E1 P1] obtain B' E' P' where
    f: "fold (classify (lower base) (lower (base @ ''skin''))) (map (\<lambda>n. d @ [n]) ns) (B1, E1, P1)
         = (B', E', P')" and
    i1: "\<forall>k. map_of B' k = None \<longleftrightarrow> map_of B1 k = None \<and> (\<forall>n \<in> set ns. \<not> is_base_skin base n k)" and
    i2: "\<forall>k p. map_of B' k = Some p \<longrightarrow>
         map_of B1 k = Some p \<or> (\<exists>n \<in> set ns. is_base_skin base n k \<and> p = d @ [n])" and
    i3: "\<forall>k. map_of E' k = None \<longleftrightarrow> map_of E1 k = None \<and> (\<forall>n \<in> set ns. \<not> is_extra_skin base n k)" and
    i4: "\<forall>k p. map_of E' k = Some p \<longrightarrow>
         map_of E1 k = Some p \<or> (\<exists>n \<in> set ns. is_extra_skin base n k \<and> p = d @ [n])"
    by blast
  have "fold (classify (lower base) (lower (base @ ''skin''))) (map (\<lambda>n. d @ [n]) (n # ns)) (B, E, P)
         = (B', E', P')"
    using c f by simp
  moreover have "\<forall>k. map_of B' k = None \<longleftrightarrow>
      map_of B k = None \<and> (\<forall>n \<in> set (n # ns). \<not> is_base_skin base n k)"
    using i1 by (auto simp: b1)
  moreover have "\<forall>k p. map_of B' k = Some p \<longrightarrow>
         map_of B k = Some p \<or> (\<exists>n \<in> set (n # ns). is_base_skin base n k \<and> p = d @ [n])"
    using i2 by (auto simp: b1 split: if_splits)
  moreover have "\<forall>k. map_of E' k = None \<longleftrightarrow>
      map_of E k = None \<and> (\<forall>n \<in> set (n # ns). \<not> is_extra_skin base n k)"
    using i3 by (auto simp: e1)
  moreover have "\<forall>k p. map_of E' k = Some p \<longrightarrow>
         map_of E k = Some p \<or> (\<exists>n \<in> set (n # ns). is_extra_skin base n k \<and> p = d @ [n])"
    using i4 by (auto simp: e1 split: if_splits)
  ultimately show ?case by blast
qed

lemma sorted_le_last: "sorted xs \<Longrightarrow> y \<in> set xs \<Longrightarrow> y \<le> last xs"
  by (induction xs) auto

lemma hd_sorted_reverse: "ks \<noteq> [] \<Longrightarrow> hd (sorted_reverse ks) = Max (set ks)"
proof -
  assume ne: "ks \<noteq> []"
  then have n: "sort ks \<noteq> []" by (metis length_sort length_0_conv)
  then have "hd (rev (sort ks)) = last (sort ks)" by (simp add: hd_rev)
  also have "\<dots> = Max (set (sort ks))"
  proof (rule Max_eqI[symmetric])
    show "last (sort ks) \<in> set (sort ks)" using n by (rule last_in_set)
    show "y \<le> last (sort ks)" if "y \<in> set (sort ks)" for y
      using that by (intro sorted_le_last) simp_all
  qed simp
  finally show ?thesis by (simp add: sorted_reverse_def)
qed

lemma dict_get_key: "k \<in> fst ` set d \<Longrightarrow> \<exists>v. dict_get d k = Inr v \<and> map_of d k = Some v"
  by (auto simp: dict_get_def dom_map_of_conv_image_fst[symmetric])


lemma find_texture_files_listed:
  "is_dir fs d \<Longrightarrow> iterdir fs d = Inr names \<Longrightarrow>
   find_texture_files fs d base =
     choose_textures
       (classify_loop (lower base) (lower (base @ ''skin''))
          (map (\<lambda>n. d @ [n]) (blp_names (lower base) names)))
       (map (\<lambda>n. d @ [n]) (blp_names (lower base) names))"
  by (simp add: find_texture_files_def bind_res_def Let_def)


lemma choose_textures_paired:
  assumes "sorted_reverse (filter (\<lambda>k. k \<in> set (map fst E)) (remdups (map fst B))) \<noteq> []"
  shows "\<exists>b e. choose_textures (B, E, P) all_blps = Inr [(1, b), (8, e)] \<and>
     map_of B (Max (fst ` set B \<inter> fst ` set E)) = Some b \<and>
     map_of E (Max (fst ` set B \<inter> fst ` set E)) = Some e"
proof -
  let ?ks = "filter (\<lambda>k. k \<in> set (map fst E)) (remdups (map fst B))"
  have ne: "?ks \<noteq> []" using assms by (auto simp: sorted_reverse_def)
  have s: "set ?ks = fst ` set B \<inter> fst ` set E" by auto
  have h: "hd (sorted_reverse ?ks) = Max (fst ` set B \<inter> fst ` set E)"
    using hd_sorted_reverse[OF ne] s by simp
  have "Max (fst ` set B \<inter> fst ` set E) \<in> fst ` set B \<inter> fst ` set E"
    using ne s by (intro Max_in) auto
  then have "Max (fst ` set B \<inter> fst ` set E) \<in> fst ` set B"
    "Max (fst ` set B \<inter> fst ` set E) \<in> fst ` set E" by auto
  from dict_get_key[OF this(1)] dict_get_key[OF this(2)] obtain b e where
    be: "dict_get B (Max (fst ` set B \<inter> fst ` set E)) = Inr b"
        "map_of B (Max (fst ` set B \<inter> fst ` set E)) = Some b"
        "dict_get E (Max (fst ` set B \<inter> fst ` set E)) = Inr e"
        "map_of E (Max (fst ` set B \<inter> fst ` set E)) = Some e" by blast
  have "choose_textures (B, E, P) all_blps = Inr [(1, b), (8, e)]"
    unfolding choose_textures_def prod.case Let_def h be
    using assms[unfolded h] ne by (simp add: bind_res_def sorted_reverse_def)
  with be show ?thesis by blast
qed

lemma set_blp_names:
  "set (blp_names bl names) =
     {n \<in> set names. lower (suffix_of n) = ''.blp'' \<and> startswith (lower (stem_of n)) bl}"
  by (auto simp: blp_names_def)

lemma skin_is_candidate:
  assumes "n \<in> set names" "is_base_skin base n k \<or> is_extra_skin base n k"
  shows "n \<in> set (blp_names (lower base) names)"
  using assms by (auto simp: set_blp_names is_base_skin_def is_extra_skin_def startswith_def)

lemma classified_dicts:
  assumes "classify_loop (lower base) (lower (base @ ''skin''))
             (map (\<lambda>n. d @ [n]) (blp_names (lower base) names)) = (B, E, P)"
  shows "fst ` set B = base_suffixes base names"
    and "fst ` set E = extra_suffixes base names"
    and "map_of B k = Some p \<Longrightarrow> \<exists>n \<in> set names. is_base_skin base n k \<and> p = d @ [n]"
    and "map_of E k = Some p \<Longrightarrow> \<exists>n \<in> set names. is_extra_skin base n k \<and> p = d @ [n]"
proof -
  let ?ns = "blp_names (lower base) names"
  have blp: "\<forall>n \<in> set ?ns. lower (suffix_of n) = ''.blp''" by (simp add: set_blp_names)
  from classify_loop_inv[OF blp, of base d "[]" "[]" None] assms
  have i1: "\<And>k. map_of B k = None \<longleftrightarrow> (\<forall>n \<in> set ?ns. \<not> is_base_skin base n k)"
    and i2: "\<And>k p. map_of B k = Some p \<Longrightarrow> \<exists>n \<in> set ?ns. is_base_skin base n k \<and> p = d @ [n]"
    and i3: "\<And>k. map_of E k = None \<longleftrightarrow> (\<forall>n \<in> set ?ns. \<not> is_extra_skin base n k)"
    and i4: "\<And>k p. map_of E k = Some p \<Longrightarrow> \<exists>n \<in> set ?ns. is_extra_skin base n k \<and> p = d @ [n]"
    unfolding classify_loop_def by auto
  have sub: "set ?ns \<subseteq> set names" by (auto simp: set_blp_names)
  have "fst ` set B = {k. map_of B k \<noteq> None}"
    by (simp add: dom_map_of_conv_image_fst[symmetric] dom_def)
  also have "\<dots> = base_suffixes base names"
  proof -
    have "map_of B k \<noteq> None \<longleftrightarrow> (\<exists>n \<in> set names. is_base_skin base n k)" for k
    proof
      assume "map_of B k \<noteq> None"
      with i1[of k] obtain n where "n \<in> set ?ns" "is_base_skin base n k" by auto
      with sub show "\<exists>n \<in> set names. is_base_skin base n k" by blast
    next
      assume "\<exists>n \<in> set names. is_base_skin base n k"
      then obtain n where n: "n \<in> set names" "is_base_skin base n k" by blast
      then have "n \<in> set ?ns" using skin_is_candidate[of n names base k] by simp
      with n(2) i1[of k] show "map_of B k \<noteq> None" by auto
    qed
    then show ?thesis by (simp add: base_suffixes_def)
  qed
  finally show "fst ` set B = base_suffixes base names" .
  have "fst ` set E = {k. map_of E k \<noteq> None}"
    by (simp add: dom_map_of_conv_image_fst[symmetric] dom_def)
  also have "\<dots> = extra_suffixes base names"
  proof -
    have "map_of E k \<noteq> None \<longleftrightarrow> (\<exists>n \<in> set names. is_extra_skin base n k)" for k
    proof
      assume "map_of E k \<noteq> None"
      with i3[of k] obtain n where "n \<in> set ?ns" "is_extra_skin base n k" by auto
      with sub show "\<exists>n \<in> set names. is_extra_skin base n k" by blast
    next
      assume "\<exists>n \<in> set names. is_extra_skin base n k"
      then obtain n where n: "n \<in> set names" "is_extra_skin base n k" by blast
      then have "n \<in> set ?ns" using skin_is_candidate[of n names base k] by simp
      with n(2) i3[of k] show "map_of E k \<noteq> None" by auto
    qed
    then show ?thesis by (simp add: extra_suffixes_def)
  qed
  finally show "fst ` set E = extra_suffixes base names" .
  show "map_of B k = Some p \<Longrightarrow> \<exists>n \<in> set names. is_base_skin base n k \<and> p = d @ [n]"
    using i2 sub by blast
  show "map_of E k = Some p \<Longrightarrow> \<exists>n \<in> set names. is_extra_skin base n k \<and> p = d @ [n]"
    using i4 sub by blast
qed

lemma hero_scenario:
  "find_texture_files hero_fs [''models''] ''Hero'' =
     Inr [(1, [''models'', ''HeroSkin00.blp'']), (8, [''models'', ''HeroSkin00_Extra.blp''])]"
  by code_simp

text \<open>
  Claim C7. When the directory lists at least one suffix that has both a base-skin file
  and an extra-skin file, the naming-convention search returns exactly the two entries
  type 1 (primary) and type 8 (overlay), and both files carry the greatest common suffix
  in the order of strings: the base and the extra never come from different suffixes.
  In the scenario of the specification (base name Hero; HeroSkin00.blp,
  HeroSkin00\_Extra.blp and HeroSkin01.blp present) the result is primary HeroSkin00.blp
  and overlay HeroSkin00\_Extra.blp, not HeroSkin01.blp.
\<close>

theorem paired_suffix_chosen:
  "(is_dir fs d \<and> iterdir fs d = Inr names \<and>
    base_suffixes base names \<inter> extra_suffixes base names \<noteq> {} \<longrightarrow>
      (\<exists>b e. find_texture_files fs d base = Inr [(1, d @ [b]), (8, d @ [e])] \<and>
         b \<in> set names \<and> e \<in> set names \<and>
         is_base_skin base b (Max (base_suffixes base names \<inter> extra_suffixes base names)) \<and>
         is_extra_skin base e (Max (base_suffixes base names \<inter> extra_suffixes base names))))
   \<and> find_texture_files hero_fs [''models''] ''Hero'' =
       Inr [(1, [''models'', ''HeroSkin00.blp'']), (8, [''models'', ''HeroSkin00_Extra.blp''])]"
proof (intro conjI impI)
  show "find_texture_files hero_fs [''models''] ''Hero'' =
       Inr [(1, [''models'', ''HeroSkin00.blp'']), (8, [''models'', ''HeroSkin00_Extra.blp''])]"
    by (rule hero_scenario)
next
  assume h: "is_dir fs d \<and> iterdir fs d = Inr names \<and>
    base_suffixes base names \<inter> extra_suffixes base names \<noteq> {}"
  let ?S = "base_suffixes base names \<inter> extra_suffixes base names"
  let ?blps = "map (\<lambda>n. d @ [n]) (blp_names (lower base) names)"
  obtain B E P where c: "classify_loop (lower base) (lower (base @ ''skin'')) ?blps = (B, E, P)"
    by (cases "classify_loop (lower base) (lower (base @ ''skin'')) ?blps")
  note cd = classified_dicts[OF c]
  have S: "fst ` set B \<inter> fst ` set E = ?S" by (simp add: cd(1,2))
  have "set (filter (\<lambda>k. k \<in> set (map fst E)) (remdups (map fst B))) = ?S"
    using S by auto
  with h have ne: "sorted_reverse (filter (\<lambda>k. k \<in> set (map fst E)) (remdups (map fst B))) \<noteq> []"
    unfolding sorted_reverse_def by (metis rev_is_Nil_conv set_empty set_sort)
  from choose_textures_paired[OF ne, of P ?blps] obtain pb pe where
    r: "choose_textures (B, E, P) ?blps = Inr [(1, pb), (8, pe)]"
       "map_of B (Max ?S) = Some pb" "map_of E (Max ?S) = Some pe"
    unfolding S by blast
  from cd(3)[OF r(2)] obtain b where b: "b \<in> set names" "is_base_skin base b (Max ?S)" "pb = d @ [b]"
    by blast
  from cd(4)[OF r(3)] obtain e where e: "e \<in> set names" "is_extra_skin base e (Max ?S)" "pe = d @ [e]"
    by blast
  have "find_texture_files fs d base = Inr [(1, d @ [b]), (8, d @ [e])]"
    using h r(1) b(3) e(3) by (simp add: find_texture_files_listed c)
  with b e show "\<exists>b e. find_texture_files fs d base = Inr [(1, d @ [b]), (8, d @ [e])] \<and>
         b \<in> set names \<and> e \<in> set names \<and>
         is_base_skin base b (Max ?S) \<and> is_extra_skin base e (Max ?S)"
    by blast
qed

text \<open>
  The general statement at the scenario's directory, where the suffix 00 is common.
\<close>

theorem paired_suffix_chosen_witness:
  "is_dir hero_fs [''models'']
   \<and> ''00'' \<in> base_suffixes ''Hero'' [''HeroSkin01.blp'', ''HeroSkin00_Extra.blp'', ''HeroSkin00.blp'']
   \<and> ''00'' \<in> extra_suffixes ''Hero'' [''HeroSkin01.blp'', ''HeroSkin00_Extra.blp'', ''HeroSkin00.blp'']
   \<and> (\<exists>b e. find_texture_files hero_fs [''models''] ''Hero''
              = Inr [(1, [''models''] @ [b]), (8, [''models''] @ [e])] \<and>
            b \<in> set [''HeroSkin01.blp'', ''HeroSkin00_Extra.blp'', ''HeroSkin00.blp''] \<and>
            e \<in> set [''HeroSkin01.blp'', ''HeroSkin00_Extra.blp'', ''HeroSkin00.blp''])"
proof -
  let ?names = "[''HeroSkin01.blp'', ''HeroSkin00_Extra.blp'', ''HeroSkin00.blp'']"
  have d: "is_dir hero_fs [''models'']" "iterdir hero_fs [''models''] = Inr ?names"
    by (simp_all add: hero_fs_def)
  have "is_base_skin ''Hero'' ''HeroSkin00.blp'' ''00''" by code_simp
  then have b: "''00'' \<in> base_suffixes ''Hero'' ?names"
    unfolding base_suffixes_def by auto
  have "is_extra_skin ''Hero'' ''HeroSkin00_Extra.blp'' ''00''" by code_simp
  then have e: "''00'' \<in> extra_suffixes ''Hero'' ?names"
    unfolding extra_suffixes_def by auto
  from b e have ne: "base_suffixes ''Hero'' ?names \<inter> extra_suffixes ''Hero'' ?names \<noteq> {}"
    by blast
  from paired_suffix_chosen[of hero_fs "[''models'']" ?names "''Hero''", THEN conjunct1, rule_format]
    d ne
  obtain b' e' where
    "find_texture_files hero_fs [''models''] ''Hero''
       = Inr [(1, [''models''] @ [b']), (8, [''models''] @ [e'])]"
    "b' \<in> set ?names" "e' \<in> set ?names"
    by blast
  with d(1) b e show ?thesis by blast
qed














end
